theory Spec2Isabelle
  imports Complex_Main
begin

section \<open>Taxi park admin API: data model\<close>

text \<open>
  The program is a FastAPI application over two SQLite tables, \<open>cars\<close> and \<open>drivers\<close>.
  A table is the list of its rows in rowid order. Python's unbounded \<open>int\<close> is \<open>int\<close>;
  a \<open>float\<close> (distance, rating) is read as the real number it denotes, since the code only
  compares these values; a nullable column is an \<open>option\<close>. The value of
  \<open>CURRENT_TIMESTAMP\<close> is an argument (\<open>now\<close>) of the two inserting operations.
  Request bodies and parameters are taken as already parsed to their declared Python types;
  what remains of validation is the declared range constraints (\<open>ge\<close>, \<open>gt\<close>, \<open>le\<close>).
  Identifiers are assumed to fit SQLite's 64-bit INTEGER; the \<open>limit\<close> and \<open>offset\<close> of the
  two listings, of which \<open>offset\<close> has no upper bound, are tested against it, since binding a
  larger Python \<open>int\<close> raises \<open>OverflowError\<close>. Non-ASCII text of the source
  (messages, seed names and plates) is named or transliterated.
\<close>

datatype CarStatus = FREE | BUSY | REPAIR

type_synonym timestamp = nat

record car_row =
  c_id :: int
  c_status :: CarStatus
  c_license_plate :: string
  c_brand :: string
  c_color :: string
  c_distance :: real
  c_created_at :: timestamp

record driver_row =
  d_id :: int
  d_full_name :: string
  d_phone :: string
  d_rating :: real
  d_car_id :: "int option"
  d_is_active :: bool
  d_created_at :: timestamp

text \<open>
  The database: both tables and, for each, the \<open>sqlite_sequence\<close> entry that
  \<open>AUTOINCREMENT\<close> maintains (the largest rowid ever handed out, 0 before the first insert).
\<close>

record db =
  cars :: "car_row list"
  drivers :: "driver_row list"
  cars_seq :: int
  drivers_seq :: int

text \<open>The Pydantic request models. \<open>CarCreate\<close> and \<open>DriverCreate\<close> are the validated objects;
  their \<open>_body\<close> forms are the parsed JSON, where an omitted field with a default is \<open>None\<close>.\<close>

record CarCreate_body =
  cb_license_plate :: string
  cb_brand :: string
  cb_color :: string
  cb_distance :: real
  cb_status :: "CarStatus option"

record CarCreate =
  cc_license_plate :: string
  cc_brand :: string
  cc_color :: string
  cc_distance :: real
  cc_status :: CarStatus

record CarUpdate =
  cu_status :: "CarStatus option"
  cu_color :: "string option"
  cu_distance :: "real option"

record DriverCreate_body =
  db_full_name :: string
  db_phone :: string
  db_rating :: "real option"
  db_car_id :: "int option"

record DriverCreate =
  dc_full_name :: string
  dc_phone :: string
  dc_rating :: real
  dc_car_id :: "int option"

record DriverUpdate =
  du_full_name :: "string option"
  du_phone :: "string option"
  du_rating :: "real option"
  du_car_id :: "int option"
  du_is_active :: "bool option"

text \<open>The response models that nest the joined entity: \<open>CarWithDriver(CarOut)\<close> and
  \<open>DriverWithCar(DriverOut)\<close> add one optional field to the row they extend.\<close>

record CarWithDriver = car_row +
  cw_driver :: "driver_row option"

record DriverWithCar = driver_row +
  dw_car :: "car_row option"

subsection \<open>Errors\<close>

text \<open>
  The \<open>detail\<close> of an \<open>HTTPException\<close> names the message the source raises it with.
  \<open>RequestValidationError\<close> is FastAPI's answer (422) to a parameter or body that breaks a
  declared constraint; \<open>InternalServerError\<close> (500) stands for any exception the handler
  does not catch.
\<close>

datatype detail =
    Car_not_found
  | Plate_exists
  | Driver_not_found
  | Car_id_does_not_exist
  | Car_already_assigned
  | Phone_exists
  | Integrity_error
  | Car_does_not_exist
  | Uniqueness_violation

datatype http_error =
    HTTPException int detail
  | RequestValidationError
  | InternalServerError

fun status_code :: "http_error \<Rightarrow> int" where
  "status_code (HTTPException c _) = c"
| "status_code RequestValidationError = 422"
| "status_code InternalServerError = 500"

text \<open>\<open>sqlite3.IntegrityError\<close>, with the constraint its message names.\<close>

datatype IntegrityError =
    UNIQUE_cars_license_plate
  | CHECK_drivers_rating
  | UNIQUE_drivers_car_id
  | UNIQUE_drivers_phone

type_synonym 'a handler = "db \<Rightarrow> (http_error + 'a) \<times> db"

definition raise :: "http_error \<Rightarrow> 'a handler" where
  "raise e s = (Inl e, s)"

section \<open>Store access\<close>

text \<open>
  \<open>get_db\<close>: the body runs on the connection; if it returns, the transaction is committed,
  if it raises, \<open>conn.rollback()\<close> restores the database and the exception propagates.
\<close>

definition get_db :: "(db \<Rightarrow> ('e + 'a) \<times> db) \<Rightarrow> db \<Rightarrow> ('e + 'a) \<times> db" where
  "get_db body s =
     (case body s of
        (Inl e, s') \<Rightarrow> (Inl e, s)
      | (Inr v, s') \<Rightarrow> (Inr v, s'))"

text \<open>\<open>SELECT ... WHERE id = ?\<close> followed by \<open>fetchone()\<close>.\<close>

definition select_car_by_id :: "int \<Rightarrow> db \<Rightarrow> car_row option" where
  "select_car_by_id i s = find (\<lambda>c. c_id c = i) (cars s)"

definition select_driver_by_id :: "int \<Rightarrow> db \<Rightarrow> driver_row option" where
  "select_driver_by_id i s = find (\<lambda>d. d_id d = i) (drivers s)"

text \<open>The integers that \<open>sqlite3\<close> can bind to a statement parameter; for any other
  Python \<open>int\<close>, \<open>cursor.execute\<close> raises \<open>OverflowError\<close>.\<close>

definition sqlite_int :: "int \<Rightarrow> bool" where
  "sqlite_int i \<longleftrightarrow> - (2 ^ 63) \<le> i \<and> i < 2 ^ 63"

text \<open>The rowid \<open>AUTOINCREMENT\<close> chooses: one more than the largest rowid the table has or
  ever had.\<close>

definition next_rowid :: "int \<Rightarrow> int list \<Rightarrow> int" where
  "next_rowid seq ids = fold max ids seq + 1"

text \<open>\<open>INSERT INTO cars (status, license_plate, brand, color, distance)\<close>. The only
  constraint a typed row can break is \<open>license_plate UNIQUE\<close>; a refused statement changes
  nothing. On success the result carries \<open>cursor.lastrowid\<close>.\<close>

definition insert_car ::
  "CarStatus \<Rightarrow> string \<Rightarrow> string \<Rightarrow> string \<Rightarrow> real \<Rightarrow> timestamp \<Rightarrow> db
     \<Rightarrow> IntegrityError + (int \<times> db)" where
  "insert_car st plate br col distance now s =
     (if plate \<in> set (map c_license_plate (cars s)) then Inl UNIQUE_cars_license_plate
      else
        let rid = next_rowid (cars_seq s) (map c_id (cars s));
            row = \<lparr>c_id = rid, c_status = st, c_license_plate = plate, c_brand = br,
                   c_color = col, c_distance = distance, c_created_at = now\<rparr>
        in Inr (rid, s\<lparr>cars := cars s @ [row], cars_seq := rid\<rparr>))"

text \<open>\<open>INSERT INTO drivers (full_name, phone, rating, car_id)\<close>; \<open>is_active\<close> takes its
  default 1. SQLite tests the \<open>CHECK\<close> on the rating first, then the unique index on
  \<open>car_id\<close> (NULLs never collide), then the one on \<open>phone\<close>. The foreign key is declared
  but the source never turns \<open>PRAGMA foreign_keys\<close> on, so it is not enforced.\<close>

definition insert_driver ::
  "string \<Rightarrow> string \<Rightarrow> real \<Rightarrow> int option \<Rightarrow> timestamp \<Rightarrow> db
     \<Rightarrow> IntegrityError + (int \<times> db)" where
  "insert_driver name ph rt cid now s =
     (if \<not> (0 \<le> rt \<and> rt \<le> 5) then Inl CHECK_drivers_rating
      else if cid \<noteq> None \<and> cid \<in> set (map d_car_id (drivers s)) then Inl UNIQUE_drivers_car_id
      else if ph \<in> set (map d_phone (drivers s)) then Inl UNIQUE_drivers_phone
      else
        let rid = next_rowid (drivers_seq s) (map d_id (drivers s));
            row = \<lparr>d_id = rid, d_full_name = name, d_phone = ph, d_rating = rt,
                   d_car_id = cid, d_is_active = True, d_created_at = now\<rparr>
        in Inr (rid, s\<lparr>drivers := drivers s @ [row], drivers_seq := rid\<rparr>))"

text \<open>The \<open>fields\<close>/\<open>params\<close> lists the update handlers build: one assignment per
  supplied field, in the source's order.\<close>

datatype car_assign = Set_status CarStatus | Set_color string | Set_distance real

fun apply_car_assign :: "car_assign \<Rightarrow> car_row \<Rightarrow> car_row" where
  "apply_car_assign (Set_status v) c = c\<lparr>c_status := v\<rparr>"
| "apply_car_assign (Set_color v) c = c\<lparr>c_color := v\<rparr>"
| "apply_car_assign (Set_distance v) c = c\<lparr>c_distance := v\<rparr>"

text \<open>\<open>UPDATE cars SET <fields> WHERE id = ?\<close>: none of the three columns carries a
  constraint a typed value can break.\<close>

definition update_cars_where_id :: "car_assign list \<Rightarrow> int \<Rightarrow> db \<Rightarrow> db" where
  "update_cars_where_id flds i s =
     s\<lparr>cars := map (\<lambda>c. if c_id c = i then fold apply_car_assign flds c else c) (cars s)\<rparr>"

datatype driver_assign =
    Set_full_name string
  | Set_phone string
  | Set_rating real
  | Set_car_id int
  | Set_is_active int

fun apply_driver_assign :: "driver_assign \<Rightarrow> driver_row \<Rightarrow> driver_row" where
  "apply_driver_assign (Set_full_name v) d = d\<lparr>d_full_name := v\<rparr>"
| "apply_driver_assign (Set_phone v) d = d\<lparr>d_phone := v\<rparr>"
| "apply_driver_assign (Set_rating v) d = d\<lparr>d_rating := v\<rparr>"
| "apply_driver_assign (Set_car_id v) d = d\<lparr>d_car_id := Some v\<rparr>"
| "apply_driver_assign (Set_is_active v) d = d\<lparr>d_is_active := (v \<noteq> 0)\<rparr>"

fun is_Set_phone :: "driver_assign \<Rightarrow> bool" where
  "is_Set_phone (Set_phone _) = True"
| "is_Set_phone _ = False"

fun is_Set_rating :: "driver_assign \<Rightarrow> bool" where
  "is_Set_rating (Set_rating _) = True"
| "is_Set_rating _ = False"

fun is_Set_car_id :: "driver_assign \<Rightarrow> bool" where
  "is_Set_car_id (Set_car_id _) = True"
| "is_Set_car_id _ = False"

text \<open>Whether the new version of a row of \<open>drivers\<close> breaks a constraint on a column the
  statement assigns, against the rows \<open>others\<close> it is not changing.\<close>

definition driver_row_violation ::
  "driver_assign list \<Rightarrow> driver_row list \<Rightarrow> driver_row \<Rightarrow> IntegrityError option" where
  "driver_row_violation flds others new =
     (if list_ex is_Set_rating flds \<and> \<not> (0 \<le> d_rating new \<and> d_rating new \<le> 5)
        then Some CHECK_drivers_rating
      else if list_ex is_Set_car_id flds \<and> d_car_id new \<noteq> None
              \<and> d_car_id new \<in> set (map d_car_id others)
        then Some UNIQUE_drivers_car_id
      else if list_ex is_Set_phone flds \<and> d_phone new \<in> set (map d_phone others)
        then Some UNIQUE_drivers_phone
      else None)"

text \<open>\<open>UPDATE drivers SET <fields> WHERE id = ?\<close>: refused as a whole, changing nothing,
  when the new row breaks a constraint.\<close>

definition update_drivers_where_id ::
  "driver_assign list \<Rightarrow> int \<Rightarrow> db \<Rightarrow> IntegrityError + db" where
  "update_drivers_where_id flds i s =
     (let others = filter (\<lambda>d. d_id d \<noteq> i) (drivers s);
          news = map (fold apply_driver_assign flds) (filter (\<lambda>d. d_id d = i) (drivers s))
      in case List.map_filter (driver_row_violation flds others) news of
           e # _ \<Rightarrow> Inl e
         | [] \<Rightarrow>
             Inr (s\<lparr>drivers :=
                      map (\<lambda>d. if d_id d = i then fold apply_driver_assign flds d else d)
                        (drivers s)\<rparr>))"

section \<open>Validation\<close>

text \<open>Building a response model from a row validates the row against the model's field
  constraints: \<open>CarOut\<close> inherits \<open>distance > 0\<close> from \<open>CarBase\<close>, \<open>DriverOut\<close> inherits
  \<open>0 \<le> rating \<le> 5\<close> from \<open>DriverBase\<close>. Inside a handler a failure is an uncaught
  exception.\<close>

definition CarOut :: "car_row \<Rightarrow> http_error + car_row" where
  "CarOut row = (if 0 < c_distance row then Inr row else Inl InternalServerError)"

definition DriverOut :: "driver_row \<Rightarrow> http_error + driver_row" where
  "DriverOut row =
     (if 0 \<le> d_rating row \<and> d_rating row \<le> 5 then Inr row else Inl InternalServerError)"

text \<open>The request models: \<open>distance: float = Field(..., gt=0)\<close>,
  \<open>rating: float = Field(5.0, ge=0, le=5)\<close> and their optional forms. A value outside the
  declared range is refused.\<close>

definition validate_CarCreate :: "CarCreate_body \<Rightarrow> http_error + CarCreate" where
  "validate_CarCreate b =
     (if 0 < cb_distance b
      then Inr \<lparr>cc_license_plate = cb_license_plate b, cc_brand = cb_brand b,
                cc_color = cb_color b, cc_distance = cb_distance b,
                cc_status = (case cb_status b of None \<Rightarrow> FREE | Some st \<Rightarrow> st)\<rparr>
      else Inl RequestValidationError)"

definition validate_CarUpdate :: "CarUpdate \<Rightarrow> http_error + CarUpdate" where
  "validate_CarUpdate u =
     (case cu_distance u of
        None \<Rightarrow> Inr u
      | Some x \<Rightarrow> if 0 < x then Inr u else Inl RequestValidationError)"

definition validate_DriverCreate :: "DriverCreate_body \<Rightarrow> http_error + DriverCreate" where
  "validate_DriverCreate b =
     (let r = (case db_rating b of None \<Rightarrow> 5 | Some x \<Rightarrow> x)
      in if 0 \<le> r \<and> r \<le> 5
         then Inr \<lparr>dc_full_name = db_full_name b, dc_phone = db_phone b, dc_rating = r,
                   dc_car_id = db_car_id b\<rparr>
         else Inl RequestValidationError)"

definition validate_DriverUpdate :: "DriverUpdate \<Rightarrow> http_error + DriverUpdate" where
  "validate_DriverUpdate u =
     (case du_rating u of
        None \<Rightarrow> Inr u
      | Some x \<Rightarrow> if 0 \<le> x \<and> x \<le> 5 then Inr u else Inl RequestValidationError)"

text \<open>A list comprehension over fallible constructions: the first failure is raised.\<close>

fun collect :: "('e + 'a) list \<Rightarrow> 'e + 'a list" where
  "collect [] = Inr []"
| "collect (x # xs) =
     (case x of
        Inl e \<Rightarrow> Inl e
      | Inr v \<Rightarrow> (case collect xs of Inl e \<Rightarrow> Inl e | Inr vs \<Rightarrow> Inr (v # vs)))"


section \<open>Vehicle endpoints\<close>

text \<open>\<open>GET /cars/in-repair\<close>.\<close>

definition get_cars_in_repair :: "car_row list handler" where
  "get_cars_in_repair =
     get_db (\<lambda>s. (collect (map CarOut (filter (\<lambda>c. c_status c = REPAIR) (cars s))), s))"

text \<open>\<open>FROM cars c LEFT JOIN drivers d ON d.car_id = c.id\<close>: every vehicle with each driver
  that references it, or once with no driver (all driver columns NULL).\<close>

definition cars_left_join_drivers :: "db \<Rightarrow> (car_row \<times> driver_row option) list" where
  "cars_left_join_drivers s =
     concat (map (\<lambda>c. case filter (\<lambda>d. d_car_id d = Some (c_id c)) (drivers s) of
                         [] \<Rightarrow> [(c, None)]
                       | ds \<Rightarrow> map (\<lambda>d. (c, Some d)) ds) (cars s))"

definition with_driver :: "car_row \<Rightarrow> driver_row option \<Rightarrow> CarWithDriver" where
  "with_driver c x =
     \<lparr>c_id = c_id c, c_status = c_status c, c_license_plate = c_license_plate c,
      c_brand = c_brand c, c_color = c_color c, c_distance = c_distance c,
      c_created_at = c_created_at c, cw_driver = x\<rparr>"

text \<open>The reshaping of one joined row that \<open>get_car\<close> and \<open>get_cars\<close> both perform:
  \<open>driver_data\<close> is built when \<open>car['driver_id']\<close> is truthy (neither NULL nor 0), with
  \<open>car_id\<close> taken from the vehicle's id.\<close>

definition car_with_driver_of_row :: "car_row \<times> driver_row option \<Rightarrow> http_error + CarWithDriver" where
  "car_with_driver_of_row row =
     (case row of (c, j) \<Rightarrow>
        let driver_data =
              (case j of
                 None \<Rightarrow> None
               | Some d \<Rightarrow> if d_id d \<noteq> 0 then Some (d\<lparr>d_car_id := Some (c_id c)\<rparr>) else None)
        in (case CarOut c of
              Inl e \<Rightarrow> Inl e
            | Inr c' \<Rightarrow>
                (case driver_data of
                   None \<Rightarrow> Inr (with_driver c' None)
                 | Some dd \<Rightarrow>
                     (case DriverOut dd of
                        Inl e \<Rightarrow> Inl e
                      | Inr d' \<Rightarrow> Inr (with_driver c' (Some d'))))))"

text \<open>\<open>GET /cars/{car_id}\<close>, with \<open>car_id: int = Path(..., ge=1)\<close>.\<close>

definition get_car :: "int \<Rightarrow> CarWithDriver handler" where
  "get_car car_id =
     (if \<not> 1 \<le> car_id then raise RequestValidationError
      else get_db (\<lambda>s.
        case filter (\<lambda>(c, j). c_id c = car_id) (cars_left_join_drivers s) of
          [] \<Rightarrow> (Inl (HTTPException 404 Car_not_found), s)
        | row # _ \<Rightarrow> (car_with_driver_of_row row, s)))"

text \<open>\<open>GET /cars\<close>: the optional conditions are conjoined, the rows ordered by the
  vehicle's id, then \<open>LIMIT ? OFFSET ?\<close>. The query parameters are range-checked first;
  \<open>offset\<close> is only required to be \<open>\<ge> 0\<close>, so it can be too large to bind, which the
  handler does not catch.\<close>

definition opt_ge0 :: "real option \<Rightarrow> bool" where
  "opt_ge0 x = (case x of None \<Rightarrow> True | Some v \<Rightarrow> 0 \<le> v)"

definition get_cars ::
  "CarStatus option \<Rightarrow> real option \<Rightarrow> real option \<Rightarrow> int \<Rightarrow> int \<Rightarrow> CarWithDriver list handler" where
  "get_cars status min_distance max_distance limit offset =
     (if \<not> (opt_ge0 min_distance \<and> opt_ge0 max_distance \<and> 1 \<le> limit \<and> limit \<le> 500 \<and> 0 \<le> offset)
      then raise RequestValidationError
      else get_db (\<lambda>s.
        if \<not> (sqlite_int limit \<and> sqlite_int offset) then (Inl InternalServerError, s)
        else
          let matching =
                filter (\<lambda>(c, j).
                    (case status of None \<Rightarrow> True | Some st \<Rightarrow> c_status c = st)
                  \<and> (case min_distance of None \<Rightarrow> True | Some x \<Rightarrow> x \<le> c_distance c)
                  \<and> (case max_distance of None \<Rightarrow> True | Some x \<Rightarrow> c_distance c \<le> x))
                  (cars_left_join_drivers s);
              rows = take (nat limit) (drop (nat offset) (sort_key (\<lambda>(c, j). c_id c) matching))
          in (collect (map car_with_driver_of_row rows), s)))"

text \<open>\<open>POST /cars\<close>.\<close>

definition create_car :: "CarCreate_body \<Rightarrow> timestamp \<Rightarrow> car_row handler" where
  "create_car body now =
     (case validate_CarCreate body of
        Inl e \<Rightarrow> raise e
      | Inr car \<Rightarrow> get_db (\<lambda>s.
          case insert_car (cc_status car) (cc_license_plate car) (cc_brand car) (cc_color car)
                 (cc_distance car) now s of
            Inl _ \<Rightarrow> (Inl (HTTPException 400 Plate_exists), s)
          | Inr (car_id, s') \<Rightarrow>
              (case select_car_by_id car_id s' of
                 None \<Rightarrow> (Inl InternalServerError, s')
               | Some new_car \<Rightarrow> (CarOut new_car, s'))))"

text \<open>\<open>PATCH /cars/{car_id}\<close>, with a bare \<open>car_id: int\<close>.\<close>

definition car_fields :: "CarUpdate \<Rightarrow> car_assign list" where
  "car_fields u =
     (case cu_status u of None \<Rightarrow> [] | Some v \<Rightarrow> [Set_status v])
     @ (case cu_color u of None \<Rightarrow> [] | Some v \<Rightarrow> [Set_color v])
     @ (case cu_distance u of None \<Rightarrow> [] | Some v \<Rightarrow> [Set_distance v])"

definition fetch_car_out :: "int \<Rightarrow> car_row handler" where
  "fetch_car_out car_id s =
     (case select_car_by_id car_id s of
        None \<Rightarrow> (Inl InternalServerError, s)
      | Some row \<Rightarrow> (CarOut row, s))"

definition update_car :: "int \<Rightarrow> CarUpdate \<Rightarrow> car_row handler" where
  "update_car car_id body =
     (case validate_CarUpdate body of
        Inl e \<Rightarrow> raise e
      | Inr car_update \<Rightarrow> get_db (\<lambda>s.
          if select_car_by_id car_id s = None then (Inl (HTTPException 404 Car_not_found), s)
          else
            let flds = car_fields car_update
            in if flds = [] then fetch_car_out car_id s
               else fetch_car_out car_id (update_cars_where_id flds car_id s)))"

section \<open>Driver endpoints\<close>

text \<open>\<open>FROM drivers d LEFT JOIN cars c ON d.car_id = c.id\<close>.\<close>

definition drivers_left_join_cars :: "db \<Rightarrow> (driver_row \<times> car_row option) list" where
  "drivers_left_join_cars s =
     concat (map (\<lambda>d. case filter (\<lambda>c. d_car_id d = Some (c_id c)) (cars s) of
                         [] \<Rightarrow> [(d, None)]
                       | cs \<Rightarrow> map (\<lambda>c. (d, Some c)) cs) (drivers s))"

definition with_car :: "driver_row \<Rightarrow> car_row option \<Rightarrow> DriverWithCar" where
  "with_car d x =
     \<lparr>d_id = d_id d, d_full_name = d_full_name d, d_phone = d_phone d, d_rating = d_rating d,
      d_car_id = d_car_id d, d_is_active = d_is_active d, d_created_at = d_created_at d,
      dw_car = x\<rparr>"

text \<open>The reshaping of one joined row in \<open>get_drivers\<close> and \<open>get_driver\<close>: \<open>car_data\<close> is
  built when \<open>driver['car_id_fk']\<close> is truthy.\<close>

definition driver_with_car_of_row :: "driver_row \<times> car_row option \<Rightarrow> http_error + DriverWithCar" where
  "driver_with_car_of_row row =
     (case row of (d, j) \<Rightarrow>
        let car_data =
              (case j of
                 None \<Rightarrow> None
               | Some c \<Rightarrow> if c_id c \<noteq> 0 then Some c else None)
        in (case DriverOut d of
              Inl e \<Rightarrow> Inl e
            | Inr d' \<Rightarrow>
                (case car_data of
                   None \<Rightarrow> Inr (with_car d' None)
                 | Some cd \<Rightarrow>
                     (case CarOut cd of
                        Inl e \<Rightarrow> Inl e
                      | Inr c' \<Rightarrow> Inr (with_car d' (Some c'))))))"

text \<open>\<open>GET /drivers\<close>, with \<open>min_rating: Optional[float] = Query(None, ge=0, le=5)\<close>,
  \<open>only_active: bool = Query(True)\<close> and the same \<open>limit\<close> and \<open>offset\<close> as \<open>get_cars\<close>.\<close>

definition get_drivers :: "real option \<Rightarrow> bool \<Rightarrow> int \<Rightarrow> int \<Rightarrow> DriverWithCar list handler" where
  "get_drivers min_rating only_active limit offset =
     (if \<not> ((case min_rating of None \<Rightarrow> True | Some r \<Rightarrow> 0 \<le> r \<and> r \<le> 5)
             \<and> 1 \<le> limit \<and> limit \<le> 500 \<and> 0 \<le> offset)
      then raise RequestValidationError
      else get_db (\<lambda>s.
        if \<not> (sqlite_int limit \<and> sqlite_int offset) then (Inl InternalServerError, s)
        else
          let matching =
                filter (\<lambda>(d, j).
                    (case min_rating of None \<Rightarrow> True | Some r \<Rightarrow> r \<le> d_rating d)
                  \<and> (if only_active then d_is_active d else True))
                  (drivers_left_join_cars s);
              rows = take (nat limit) (drop (nat offset) (sort_key (\<lambda>(d, j). d_id d) matching))
          in (collect (map driver_with_car_of_row rows), s)))"

text \<open>\<open>GET /drivers/{driver_id}\<close>, with \<open>driver_id: int = Path(..., ge=1)\<close>.\<close>

definition get_driver :: "int \<Rightarrow> DriverWithCar handler" where
  "get_driver driver_id =
     (if \<not> 1 \<le> driver_id then raise RequestValidationError
      else get_db (\<lambda>s.
        case filter (\<lambda>(d, j). d_id d = driver_id) (drivers_left_join_cars s) of
          [] \<Rightarrow> (Inl (HTTPException 404 Driver_not_found), s)
        | row # _ \<Rightarrow> (driver_with_car_of_row row, s)))"

text \<open>\<open>POST /drivers\<close>. The two pre-checks run under \<open>if driver.car_id:\<close>, which is false
  for \<open>None\<close> and for 0. An \<open>IntegrityError\<close> of the insert is told apart by whether its
  message mentions \<open>phone\<close>.\<close>

definition car_id_precheck :: "int option \<Rightarrow> db \<Rightarrow> http_error option" where
  "car_id_precheck car_id s =
     (case car_id of
        None \<Rightarrow> None
      | Some cid \<Rightarrow>
          if cid = 0 then None
          else if select_car_by_id cid s = None
            then Some (HTTPException 400 Car_id_does_not_exist)
          else if find (\<lambda>d. d_car_id d = Some cid) (drivers s) \<noteq> None
            then Some (HTTPException 400 Car_already_assigned)
          else None)"

definition fetch_driver_out :: "int \<Rightarrow> driver_row handler" where
  "fetch_driver_out driver_id s =
     (case select_driver_by_id driver_id s of
        None \<Rightarrow> (Inl InternalServerError, s)
      | Some row \<Rightarrow> (DriverOut row, s))"

definition create_driver :: "DriverCreate_body \<Rightarrow> timestamp \<Rightarrow> driver_row handler" where
  "create_driver body now =
     (case validate_DriverCreate body of
        Inl e \<Rightarrow> raise e
      | Inr driver \<Rightarrow> get_db (\<lambda>s.
          case car_id_precheck (dc_car_id driver) s of
            Some e \<Rightarrow> (Inl e, s)
          | None \<Rightarrow>
              (case insert_driver (dc_full_name driver) (dc_phone driver) (dc_rating driver)
                      (dc_car_id driver) now s of
                 Inl e \<Rightarrow>
                   if e = UNIQUE_drivers_phone then (Inl (HTTPException 400 Phone_exists), s)
                   else (Inl (HTTPException 400 Integrity_error), s)
               | Inr (driver_id, s') \<Rightarrow> fetch_driver_out driver_id s')))"

text \<open>\<open>PATCH /drivers/{driver_id}\<close>, with a bare \<open>driver_id: int\<close>. A supplied \<open>car_id\<close> of 0
  is overwritten with \<open>None\<close> in the request object; any other supplied \<open>car_id\<close> must name
  a vehicle that no other driver references.\<close>

definition resolve_car_id :: "int \<Rightarrow> DriverUpdate \<Rightarrow> db \<Rightarrow> http_error + DriverUpdate" where
  "resolve_car_id driver_id driver_update s =
     (case du_car_id driver_update of
        None \<Rightarrow> Inr driver_update
      | Some cid \<Rightarrow>
          if cid = 0 then Inr (driver_update\<lparr>du_car_id := None\<rparr>)
          else if select_car_by_id cid s = None
            then Inl (HTTPException 400 Car_does_not_exist)
          else if find (\<lambda>d. d_car_id d = Some cid \<and> d_id d \<noteq> driver_id) (drivers s) \<noteq> None
            then Inl (HTTPException 400 Car_already_assigned)
          else Inr driver_update)"

definition driver_fields :: "DriverUpdate \<Rightarrow> driver_assign list" where
  "driver_fields u =
     (case du_full_name u of None \<Rightarrow> [] | Some v \<Rightarrow> [Set_full_name v])
     @ (case du_phone u of None \<Rightarrow> [] | Some v \<Rightarrow> [Set_phone v])
     @ (case du_rating u of None \<Rightarrow> [] | Some v \<Rightarrow> [Set_rating v])
     @ (case du_car_id u of None \<Rightarrow> [] | Some v \<Rightarrow> [Set_car_id v])
     @ (case du_is_active u of None \<Rightarrow> [] | Some v \<Rightarrow> [Set_is_active (if v then 1 else 0)])"

definition update_driver :: "int \<Rightarrow> DriverUpdate \<Rightarrow> driver_row handler" where
  "update_driver driver_id body =
     (case validate_DriverUpdate body of
        Inl e \<Rightarrow> raise e
      | Inr driver_update \<Rightarrow> get_db (\<lambda>s.
          if select_driver_by_id driver_id s = None
            then (Inl (HTTPException 404 Driver_not_found), s)
          else
            (case resolve_car_id driver_id driver_update s of
               Inl e \<Rightarrow> (Inl e, s)
             | Inr driver_update' \<Rightarrow>
                 let flds = driver_fields driver_update'
                 in if flds = [] then fetch_driver_out driver_id s
                    else (case update_drivers_where_id flds driver_id s of
                            Inl _ \<Rightarrow> (Inl (HTTPException 400 Uniqueness_violation), s)
                          | Inr s' \<Rightarrow> fetch_driver_out driver_id s'))))"

text \<open>\<open>GET /drivers/low-rating\<close>, with \<open>threshold: float = Query(4.0, ge=0, le=5)\<close>.\<close>

definition get_drivers_low_rating :: "real \<Rightarrow> driver_row list handler" where
  "get_drivers_low_rating threshold =
     (if \<not> (0 \<le> threshold \<and> threshold \<le> 5) then raise RequestValidationError
      else get_db (\<lambda>s.
        (collect (map DriverOut
           (sort_key d_rating
              (filter (\<lambda>d. d_rating d < threshold \<and> d_is_active d) (drivers s)))), s)))"

section \<open>Schema bootstrap and seed data\<close>

fun executemany ::
  "('p \<Rightarrow> db \<Rightarrow> IntegrityError + (int \<times> db)) \<Rightarrow> 'p list \<Rightarrow> db \<Rightarrow> IntegrityError + db" where
  "executemany stmt [] s = Inr s"
| "executemany stmt (p # ps) s =
     (case stmt p s of
        Inl e \<Rightarrow> Inl e
      | Inr (_, s') \<Rightarrow> executemany stmt ps s')"

definition seed_cars :: "(CarStatus \<times> string \<times> string \<times> string \<times> real) list" where
  "seed_cars =
     [(FREE, ''A123BV777'', ''Toyota'', ''Belyi'', 5.3),
      (BUSY, ''V456GD777'', ''Hyundai'', ''Chernyi'', 2.1),
      (REPAIR, ''E789ZhZ777'', ''Kia'', ''Seryi'', 8.7),
      (BUSY, ''I012KL777'', ''Skoda'', ''Sinii'', 1.5),
      (FREE, ''M345NO777'', ''Volkswagen'', ''Krasnyi'', 4.2),
      (REPAIR, ''P678RS777'', ''Renault'', ''Belyi'', 6.8),
      (FREE, ''T901UF777'', ''Toyota'', ''Serebristyi'', 3.4)]"

definition seed_drivers :: "(string \<times> string \<times> real \<times> int) list" where
  "seed_drivers =
     [(''Ivanov Ivan Ivanovich'', ''+79001234567'', 4.9, 1),
      (''Petrov Petr Petrovich'', ''+79007654321'', 4.7, 2),
      (''Sidorov Sidor Sidorovich'', ''+79005554433'', 5.0, 4),
      (''Smirnov Aleksei Vladimirovich'', ''+79004443322'', 4.5, 5),
      (''Kozlov Dmitrii Nikolaevich'', ''+79003332211'', 4.8, 7)]"

definition empty_db :: db where
  "empty_db = \<lparr>cars = [], drivers = [], cars_seq = 0, drivers_seq = 0\<rparr>"

text \<open>\<open>init_db\<close>: the tables exist afterwards; the seed rows are inserted when \<open>cars\<close> is
  empty.\<close>

definition init_db :: "timestamp \<Rightarrow> db \<Rightarrow> (IntegrityError + unit) \<times> db" where
  "init_db now =
     get_db (\<lambda>s.
       if length (cars s) = 0 then
         (case executemany (\<lambda>(st, plate, br, col, km). insert_car st plate br col km now)
                 seed_cars s of
            Inl e \<Rightarrow> (Inl e, s)
          | Inr s1 \<Rightarrow>
              (case executemany (\<lambda>(name, ph, rt, cid). insert_driver name ph rt (Some cid) now)
                      seed_drivers s1 of
                 Inl e \<Rightarrow> (Inl e, s1)
               | Inr s2 \<Rightarrow> (Inr (), s2)))
       else (Inr (), s))"

definition seed_db :: db where
  "seed_db = snd (init_db 0 empty_db)"

section \<open>Well-formed stores\<close>

text \<open>What the schema and the validated writes guarantee of every store the program can
  produce: primary keys are distinct and, being handed out by \<open>AUTOINCREMENT\<close>, positive and
  at most the sequence value; plates and phones are unique; a non-null \<open>car_id\<close> is held by
  one driver only; distances are positive and ratings lie in \<open>[0, 5]\<close>.\<close>

definition cars_ok :: "db \<Rightarrow> bool" where
  "cars_ok s \<longleftrightarrow>
     0 \<le> cars_seq s
   \<and> distinct (map c_id (cars s))
   \<and> (\<forall>c \<in> set (cars s). 1 \<le> c_id c \<and> c_id c \<le> cars_seq s \<and> 0 < c_distance c)
   \<and> (\<forall>c \<in> set (cars s). \<forall>c' \<in> set (cars s).
         c_license_plate c = c_license_plate c' \<longrightarrow> c_id c = c_id c')"

definition drivers_ok :: "db \<Rightarrow> bool" where
  "drivers_ok s \<longleftrightarrow>
     0 \<le> drivers_seq s
   \<and> distinct (map d_id (drivers s))
   \<and> (\<forall>d \<in> set (drivers s).
         1 \<le> d_id d \<and> d_id d \<le> drivers_seq s \<and> 0 \<le> d_rating d \<and> d_rating d \<le> 5)
   \<and> (\<forall>d \<in> set (drivers s). \<forall>d' \<in> set (drivers s).
         d_phone d = d_phone d' \<longrightarrow> d_id d = d_id d')
   \<and> (\<forall>d \<in> set (drivers s). \<forall>d' \<in> set (drivers s).
         d_car_id d \<noteq> None \<and> d_car_id d = d_car_id d' \<longrightarrow> d_id d = d_id d')"

definition store_ok :: "db \<Rightarrow> bool" where
  "store_ok s \<longleftrightarrow> cars_ok s \<and> drivers_ok s"

text \<open>The partial-update bodies that supply no field.\<close>

definition no_car_update :: CarUpdate where
  "no_car_update = \<lparr>cu_status = None, cu_color = None, cu_distance = None\<rparr>"

definition no_driver_update :: DriverUpdate where
  "no_driver_update =
     \<lparr>du_full_name = None, du_phone = None, du_rating = None, du_car_id = None,
      du_is_active = None\<rparr>"

text \<open>An optional rating that passes \<open>ge=0, le=5\<close>.\<close>

definition rating_in_range :: "real option \<Rightarrow> bool" where
  "rating_in_range x = (case x of None \<Rightarrow> True | Some r \<Rightarrow> 0 \<le> r \<and> r \<le> 5)"

text \<open>The store with the active flag of every driver set to \<open>b\<close>, and the seeded store after
  driver 1 has been deactivated through \<open>PATCH /drivers/1\<close>.\<close>

definition set_all_active :: "bool \<Rightarrow> db \<Rightarrow> db" where
  "set_all_active b s = s\<lparr>drivers := map (\<lambda>d. d\<lparr>d_is_active := b\<rparr>) (drivers s)\<rparr>"

definition inactive_db :: db where
  "inactive_db = snd (update_driver 1 (no_driver_update\<lparr>du_is_active := Some False\<rparr>) seed_db)"

text \<open>The row that a successful \<open>INSERT INTO drivers\<close> for a request body adds.\<close>

definition new_driver_row :: "DriverCreate_body \<Rightarrow> timestamp \<Rightarrow> db \<Rightarrow> driver_row" where
  "new_driver_row body now s =
     \<lparr>d_id = next_rowid (drivers_seq s) (map d_id (drivers s)),
      d_full_name = db_full_name body, d_phone = db_phone body,
      d_rating = (case db_rating body of None \<Rightarrow> 5 | Some x \<Rightarrow> x),
      d_car_id = db_car_id body, d_is_active = True, d_created_at = now\<rparr>"

text \<open>The driver that references a vehicle, and the vehicle a driver references, as the
  joins find them.\<close>

definition assigned_driver :: "db \<Rightarrow> car_row \<Rightarrow> driver_row option" where
  "assigned_driver s c = find (\<lambda>d. d_car_id d = Some (c_id c)) (drivers s)"

definition assigned_car :: "db \<Rightarrow> driver_row \<Rightarrow> car_row option" where
  "assigned_car s d = find (\<lambda>c. d_car_id d = Some (c_id c)) (cars s)"

text \<open>The list an operation returned (empty if it failed), and the stores with \<open>n\<close> vehicles,
  all in repair, and no driver; \<open>many_repair_db\<close> has 101.\<close>

definition returned :: "('e + 'a list) \<times> db \<Rightarrow> 'a list" where
  "returned res = (case fst res of Inl _ \<Rightarrow> [] | Inr xs \<Rightarrow> xs)"

definition repair_car :: "nat \<Rightarrow> car_row" where
  "repair_car n =
     \<lparr>c_id = int n, c_status = REPAIR, c_license_plate = replicate n CHR ''R'',
      c_brand = ''Kia'', c_color = ''Seryi'', c_distance = 1, c_created_at = 0\<rparr>"

definition repair_db :: "nat \<Rightarrow> db" where
  "repair_db n =
     \<lparr>cars = map (\<lambda>k. repair_car (Suc k)) [0..<n], drivers = [], cars_seq = int n,
      drivers_seq = 0\<rparr>"

definition many_repair_db :: db where
  "many_repair_db = repair_db 101"

text \<open>The row that a successful \<open>INSERT INTO cars\<close> for a request body adds.\<close>

definition new_car_row :: "CarCreate_body \<Rightarrow> timestamp \<Rightarrow> db \<Rightarrow> car_row" where
  "new_car_row body now s =
     \<lparr>c_id = next_rowid (cars_seq s) (map c_id (cars s)),
      c_status = (case cb_status body of None \<Rightarrow> FREE | Some st \<Rightarrow> st),
      c_license_plate = cb_license_plate body, c_brand = cb_brand body,
      c_color = cb_color body, c_distance = cb_distance body, c_created_at = now\<rparr>"

text \<open>The requests that write to the store, the store after serving one, and the seeded
  store after driver 2 has been moved to vehicle 3 through \<open>PATCH /drivers/2\<close>.\<close>

datatype request =
    Create_car CarCreate_body timestamp
  | Update_car int CarUpdate
  | Create_driver DriverCreate_body timestamp
  | Update_driver int DriverUpdate

fun serve :: "request \<Rightarrow> db \<Rightarrow> db" where
  "serve (Create_car body now) s = snd (create_car body now s)"
| "serve (Update_car car_id body) s = snd (update_car car_id body s)"
| "serve (Create_driver body now) s = snd (create_driver body now s)"
| "serve (Update_driver driver_id body) s = snd (update_driver driver_id body s)"

definition moved_db :: db where
  "moved_db = fold serve [Update_driver 2 (no_driver_update\<lparr>du_car_id := Some 3\<rparr>)] seed_db"

section \<open>Basic facts\<close>

lemma fold_max_ge: "(seq::int) \<le> fold max ids seq \<and> (\<forall>i \<in> set ids. i \<le> fold max ids seq)"
proof (induction ids arbitrary: seq)
  case Nil
  show ?case by simp
next
  case (Cons a ids)
  have "max a seq \<le> fold max ids (max a seq)" using Cons.IH by blast
  moreover have "\<forall>i \<in> set ids. i \<le> fold max ids (max a seq)" using Cons.IH by blast
  ultimately show ?case by auto
qed

lemma next_rowid_gt_seq: "seq < next_rowid seq ids"
  using fold_max_ge [of seq ids] by (simp add: next_rowid_def)

lemma next_rowid_gt_ids: "i \<in> set ids \<Longrightarrow> i < next_rowid seq ids"
  using fold_max_ge [of seq ids] by (auto simp: next_rowid_def)

lemma find_append_last: "\<forall>x \<in> set xs. \<not> P x \<Longrightarrow> P y \<Longrightarrow> find P (xs @ [y]) = Some y"
  by (induction xs) auto

lemma find_distinct_key:
  "distinct (map f xs) \<Longrightarrow> x \<in> set xs \<Longrightarrow> find (\<lambda>y. f y = f x) xs = Some x"
  by (induction xs) (auto simp: image_iff)

lemma find_None_iff_key: "find (\<lambda>y. f y = k) xs = None \<longleftrightarrow> k \<notin> f ` set xs"
  by (induction xs) auto

lemma cars_ok_distinct: "cars_ok s \<Longrightarrow> distinct (map c_id (cars s))"
  unfolding cars_ok_def by blast

lemma cars_ok_row:
  "cars_ok s \<Longrightarrow> c \<in> set (cars s) \<Longrightarrow> 1 \<le> c_id c \<and> c_id c \<le> cars_seq s \<and> 0 < c_distance c"
  unfolding cars_ok_def by blast

lemma drivers_ok_distinct: "drivers_ok s \<Longrightarrow> distinct (map d_id (drivers s))"
  unfolding drivers_ok_def by blast

lemma drivers_ok_row:
  "drivers_ok s \<Longrightarrow> d \<in> set (drivers s) \<Longrightarrow>
   1 \<le> d_id d \<and> d_id d \<le> drivers_seq s \<and> 0 \<le> d_rating d \<and> d_rating d \<le> 5"
  unfolding drivers_ok_def by blast

lemma drivers_ok_car_id:
  "drivers_ok s \<Longrightarrow> d \<in> set (drivers s) \<Longrightarrow> d' \<in> set (drivers s) \<Longrightarrow>
   d_car_id d = Some v \<Longrightarrow> d_car_id d' = Some v \<Longrightarrow> d_id d = d_id d'"
  unfolding drivers_ok_def by (metis option.distinct(1))

lemma select_car_by_id_member:
  "cars_ok s \<Longrightarrow> c \<in> set (cars s) \<Longrightarrow> select_car_by_id (c_id c) s = Some c"
  using find_distinct_key [of c_id "cars s" c] cars_ok_distinct [of s]
  by (simp add: select_car_by_id_def)

lemma select_driver_by_id_member:
  "drivers_ok s \<Longrightarrow> d \<in> set (drivers s) \<Longrightarrow> select_driver_by_id (d_id d) s = Some d"
  using find_distinct_key [of d_id "drivers s" d] drivers_ok_distinct [of s]
  by (simp add: select_driver_by_id_def)

lemma CarOut_ok: "cars_ok s \<Longrightarrow> c \<in> set (cars s) \<Longrightarrow> CarOut c = Inr c"
  using cars_ok_row [of s c] by (simp add: CarOut_def)

lemma DriverOut_ok: "drivers_ok s \<Longrightarrow> d \<in> set (drivers s) \<Longrightarrow> DriverOut d = Inr d"
  using drivers_ok_row [of s d] by (simp add: DriverOut_def)

text \<open>The store after \<open>init_db\<close> on a fresh database.\<close>

lemma seed_db_eq:
  "seed_db =
     \<lparr>cars =
        [\<lparr>c_id = 1, c_status = FREE, c_license_plate = ''A123BV777'', c_brand = ''Toyota'',
          c_color = ''Belyi'', c_distance = 5.3, c_created_at = 0\<rparr>,
         \<lparr>c_id = 2, c_status = BUSY, c_license_plate = ''V456GD777'', c_brand = ''Hyundai'',
          c_color = ''Chernyi'', c_distance = 2.1, c_created_at = 0\<rparr>,
         \<lparr>c_id = 3, c_status = REPAIR, c_license_plate = ''E789ZhZ777'', c_brand = ''Kia'',
          c_color = ''Seryi'', c_distance = 8.7, c_created_at = 0\<rparr>,
         \<lparr>c_id = 4, c_status = BUSY, c_license_plate = ''I012KL777'', c_brand = ''Skoda'',
          c_color = ''Sinii'', c_distance = 1.5, c_created_at = 0\<rparr>,
         \<lparr>c_id = 5, c_status = FREE, c_license_plate = ''M345NO777'', c_brand = ''Volkswagen'',
          c_color = ''Krasnyi'', c_distance = 4.2, c_created_at = 0\<rparr>,
         \<lparr>c_id = 6, c_status = REPAIR, c_license_plate = ''P678RS777'', c_brand = ''Renault'',
          c_color = ''Belyi'', c_distance = 6.8, c_created_at = 0\<rparr>,
         \<lparr>c_id = 7, c_status = FREE, c_license_plate = ''T901UF777'', c_brand = ''Toyota'',
          c_color = ''Serebristyi'', c_distance = 3.4, c_created_at = 0\<rparr>],
      drivers =
        [\<lparr>d_id = 1, d_full_name = ''Ivanov Ivan Ivanovich'', d_phone = ''+79001234567'',
          d_rating = 4.9, d_car_id = Some 1, d_is_active = True, d_created_at = 0\<rparr>,
         \<lparr>d_id = 2, d_full_name = ''Petrov Petr Petrovich'', d_phone = ''+79007654321'',
          d_rating = 4.7, d_car_id = Some 2, d_is_active = True, d_created_at = 0\<rparr>,
         \<lparr>d_id = 3, d_full_name = ''Sidorov Sidor Sidorovich'', d_phone = ''+79005554433'',
          d_rating = 5, d_car_id = Some 4, d_is_active = True, d_created_at = 0\<rparr>,
         \<lparr>d_id = 4, d_full_name = ''Smirnov Aleksei Vladimirovich'', d_phone = ''+79004443322'',
          d_rating = 4.5, d_car_id = Some 5, d_is_active = True, d_created_at = 0\<rparr>,
         \<lparr>d_id = 5, d_full_name = ''Kozlov Dmitrii Nikolaevich'', d_phone = ''+79003332211'',
          d_rating = 4.8, d_car_id = Some 7, d_is_active = True, d_created_at = 0\<rparr>],
      cars_seq = 7, drivers_seq = 5\<rparr>"
  by (simp add: seed_db_def init_db_def get_db_def empty_db_def seed_cars_def seed_drivers_def
      insert_car_def insert_driver_def next_rowid_def Let_def)

lemma store_ok_seed_db: "store_ok seed_db"
  by (simp add: seed_db_eq store_ok_def cars_ok_def drivers_ok_def)

section \<open>Vehicle creation\<close>

lemma insert_car_duplicate:
  "plate \<in> c_license_plate ` set (cars s) \<Longrightarrow>
   insert_car st plate br col km now s = Inl UNIQUE_cars_license_plate"
  by (simp add: insert_car_def)

text \<open>
  Claim C3. In every store that holds a vehicle with plate \<open>P\<close>, a valid request to create
  another vehicle with plate \<open>P\<close> fails with the 400 "plate exists" conflict, and the store
  afterwards is the store before: the vehicle table has the same rows and the same row count.
\<close>

theorem create_car_duplicate_plate:
  assumes "c \<in> set (cars s)" and "cb_license_plate body = c_license_plate c"
    and "0 < cb_distance body"
  shows "create_car body now s = (Inl (HTTPException 400 Plate_exists), s)
       \<and> cars (snd (create_car body now s)) = cars s
       \<and> length (cars (snd (create_car body now s))) = length (cars s)"
proof -
  have "cb_license_plate body \<in> c_license_plate ` set (cars s)"
    using assms(1,2) by auto
  then have "create_car body now s = (Inl (HTTPException 400 Plate_exists), s)"
    using assms(3)
    by (simp add: create_car_def validate_CarCreate_def get_db_def insert_car_duplicate)
  then show ?thesis by simp
qed

theorem create_car_duplicate_plate_witness:
  "create_car \<lparr>cb_license_plate = ''A123BV777'', cb_brand = ''Lada'', cb_color = ''Red'',
               cb_distance = 1, cb_status = None\<rparr> 3 seed_db
     = (Inl (HTTPException 400 Plate_exists), seed_db)"
  using create_car_duplicate_plate
    [of "\<lparr>c_id = 1, c_status = FREE, c_license_plate = ''A123BV777'', c_brand = ''Toyota'',
          c_color = ''Belyi'', c_distance = 5.3, c_created_at = 0\<rparr>" seed_db
        "\<lparr>cb_license_plate = ''A123BV777'', cb_brand = ''Lada'', cb_color = ''Red'',
          cb_distance = 1, cb_status = None\<rparr>" 3]
  by (simp add: seed_db_eq)

section \<open>Partial updates\<close>

lemma resolve_car_id_zero:
  "resolve_car_id i (u\<lparr>du_car_id := Some 0\<rparr>) s = Inr (u\<lparr>du_car_id := None\<rparr>)"
  by (simp add: resolve_car_id_def)

lemma resolve_car_id_absent:
  "du_car_id u = None \<Longrightarrow> resolve_car_id i u s = Inr u"
  by (simp add: resolve_car_id_def)

text \<open>For \<open>update_driver\<close>, a request with \<open>car_id = 0\<close> is the same request without
  \<open>car_id\<close>: once the sentinel is replaced by \<open>None\<close>, the later test
  \<open>driver_update.car_id is not None\<close> adds no assignment for the column.\<close>

lemma update_driver_car_id_zero_as_absent:
  "update_driver i (u\<lparr>du_car_id := Some 0\<rparr>) s = update_driver i (u\<lparr>du_car_id := None\<rparr>) s"
  by (cases "du_rating u")
    (simp_all add: update_driver_def validate_DriverUpdate_def resolve_car_id_zero
      resolve_car_id_absent cong: if_cong)

text \<open>
  Claim C1 says that a driver update supplying the vehicle reference 0 leaves the driver's
  reference null. The code does not do so: on the seeded store, driver 1 references vehicle 1,
  and the request \<open>{car_id: 0}\<close> for driver 1 succeeds, returns the driver still referencing
  vehicle 1, and leaves the store as it was.
\<close>

theorem update_driver_unassign_keeps_reference:
  "update_driver 1 (no_driver_update\<lparr>du_car_id := Some 0\<rparr>) seed_db
     = (Inr \<lparr>d_id = 1, d_full_name = ''Ivanov Ivan Ivanovich'', d_phone = ''+79001234567'',
             d_rating = 4.9, d_car_id = Some 1, d_is_active = True, d_created_at = 0\<rparr>,
        seed_db)"
  by (simp add: update_driver_def validate_DriverUpdate_def resolve_car_id_def
      no_driver_update_def get_db_def select_driver_by_id_def driver_fields_def
      fetch_driver_out_def DriverOut_def seed_db_eq)

text \<open>
  Claim C4 says that every operation with a path identifier rejects a non-positive identifier
  with a validation error before the store is read. The two detail reads do (\<open>ge=1\<close>); the
  two partial updates declare a bare \<open>int\<close>, look the identifier up and answer 404.
\<close>

theorem update_nonpositive_id_not_validated:
  "update_car 0 no_car_update seed_db = (Inl (HTTPException 404 Car_not_found), seed_db)
 \<and> update_driver (- 1) no_driver_update seed_db
      = (Inl (HTTPException 404 Driver_not_found), seed_db)
 \<and> get_car 0 seed_db = (Inl RequestValidationError, seed_db)
 \<and> get_driver (- 1) seed_db = (Inl RequestValidationError, seed_db)"
  by (simp add: update_car_def validate_CarUpdate_def no_car_update_def get_db_def
      select_car_by_id_def update_driver_def validate_DriverUpdate_def no_driver_update_def
      select_driver_by_id_def get_car_def get_driver_def raise_def seed_db_eq)

text \<open>
  Claim C6. In a well-formed store, a partial update of an existing vehicle, or of an existing
  driver, that supplies no field succeeds, returns that record as stored, and leaves the store
  as it was.
\<close>

theorem update_without_fields_is_noop:
  assumes "store_ok s"
  shows "(c \<in> set (cars s) \<longrightarrow> update_car (c_id c) no_car_update s = (Inr c, s))
       \<and> (d \<in> set (drivers s) \<longrightarrow> update_driver (d_id d) no_driver_update s = (Inr d, s))"
proof (intro conjI impI)
  assume c: "c \<in> set (cars s)"
  have ok: "cars_ok s" using assms by (simp add: store_ok_def)
  have sel: "select_car_by_id (c_id c) s = Some c" using ok c by (rule select_car_by_id_member)
  have out: "CarOut c = Inr c" using ok c by (rule CarOut_ok)
  show "update_car (c_id c) no_car_update s = (Inr c, s)"
    by (simp add: update_car_def validate_CarUpdate_def no_car_update_def get_db_def sel
        car_fields_def fetch_car_out_def out)
next
  assume d: "d \<in> set (drivers s)"
  have ok: "drivers_ok s" using assms by (simp add: store_ok_def)
  have sel: "select_driver_by_id (d_id d) s = Some d"
    using ok d by (rule select_driver_by_id_member)
  have out: "DriverOut d = Inr d" using ok d by (rule DriverOut_ok)
  show "update_driver (d_id d) no_driver_update s = (Inr d, s)"
    by (simp add: update_driver_def validate_DriverUpdate_def no_driver_update_def get_db_def
        sel resolve_car_id_def driver_fields_def fetch_driver_out_def out)
qed

theorem update_without_fields_is_noop_witness:
  "store_ok seed_db
 \<and> update_car 3 no_car_update seed_db
     = (Inr \<lparr>c_id = 3, c_status = REPAIR, c_license_plate = ''E789ZhZ777'', c_brand = ''Kia'',
             c_color = ''Seryi'', c_distance = 8.7, c_created_at = 0\<rparr>, seed_db)
 \<and> update_driver 2 no_driver_update seed_db
     = (Inr \<lparr>d_id = 2, d_full_name = ''Petrov Petr Petrovich'', d_phone = ''+79007654321'',
             d_rating = 4.7, d_car_id = Some 2, d_is_active = True, d_created_at = 0\<rparr>, seed_db)"
  using store_ok_seed_db
    update_without_fields_is_noop [OF store_ok_seed_db,
      of "\<lparr>c_id = 3, c_status = REPAIR, c_license_plate = ''E789ZhZ777'', c_brand = ''Kia'',
           c_color = ''Seryi'', c_distance = 8.7, c_created_at = 0\<rparr>"
         "\<lparr>d_id = 2, d_full_name = ''Petrov Petr Petrovich'', d_phone = ''+79007654321'',
           d_rating = 4.7, d_car_id = Some 2, d_is_active = True, d_created_at = 0\<rparr>"]
  by (simp add: seed_db_eq)

section \<open>Rating validation\<close>

text \<open>
  Claim C5 says that a rating outside \<open>[0, 5]\<close> is clamped and the operation proceeds. The
  code declares \<open>ge=0, le=5\<close>, which refuses the request: a create with rating 7 is answered
  with a validation error and is not the create with rating 5.
\<close>

theorem rating_not_clamped:
  "create_driver \<lparr>db_full_name = ''Anna'', db_phone = ''+70000000000'', db_rating = Some 7,
                  db_car_id = None\<rparr> 1 seed_db = (Inl RequestValidationError, seed_db)
 \<and> create_driver \<lparr>db_full_name = ''Anna'', db_phone = ''+70000000000'', db_rating = Some 7,
                  db_car_id = None\<rparr> 1 seed_db
   \<noteq> create_driver \<lparr>db_full_name = ''Anna'', db_phone = ''+70000000000'', db_rating = Some 5,
                  db_car_id = None\<rparr> 1 seed_db"
  by (simp add: create_driver_def validate_DriverCreate_def raise_def get_db_def
      car_id_precheck_def insert_driver_def fetch_driver_out_def select_driver_by_id_def
      DriverOut_def next_rowid_def Let_def seed_db_eq)

text \<open>
  Claim C5, amended. A driver create or driver partial update that supplies a rating outside
  \<open>[0, 5]\<close> is rejected with a validation error (422), and the store is not touched.
\<close>

theorem rating_out_of_range_rejected:
  assumes "r < 0 \<or> 5 < r"
  shows "(db_rating body = Some r \<longrightarrow> create_driver body now s = (Inl RequestValidationError, s))
       \<and> (du_rating u = Some r \<longrightarrow> update_driver i u s = (Inl RequestValidationError, s))"
  using assms
  by (auto simp: create_driver_def validate_DriverCreate_def update_driver_def
      validate_DriverUpdate_def raise_def)

theorem rating_out_of_range_rejected_witness:
  "create_driver \<lparr>db_full_name = ''Boris'', db_phone = ''+70000000001'', db_rating = Some 6,
                  db_car_id = None\<rparr> 2 seed_db = (Inl RequestValidationError, seed_db)
 \<and> update_driver 1 (no_driver_update\<lparr>du_rating := Some 6\<rparr>) seed_db
     = (Inl RequestValidationError, seed_db)"
  using rating_out_of_range_rejected
    [of 6 "\<lparr>db_full_name = ''Boris'', db_phone = ''+70000000001'', db_rating = Some 6,
             db_car_id = None\<rparr>" 2 seed_db "no_driver_update\<lparr>du_rating := Some 6\<rparr>" 1]
  by simp

section \<open>One driver per vehicle\<close>

lemma find_member_not_None: "x \<in> set xs \<Longrightarrow> P x \<Longrightarrow> find P xs \<noteq> None"
  by (auto simp: find_None_iff)

lemma distinct_key_eq:
  "distinct (map f xs) \<Longrightarrow> x \<in> set xs \<Longrightarrow> y \<in> set xs \<Longrightarrow> f x = f y \<Longrightarrow> x = y"
  by (auto simp: distinct_map dest: inj_onD)

lemma validate_DriverCreate_ok:
  "rating_in_range (db_rating body) \<Longrightarrow>
   \<exists>d. validate_DriverCreate body = Inr d \<and> dc_car_id d = db_car_id body
       \<and> dc_phone d = db_phone body \<and> dc_full_name d = db_full_name body
       \<and> 0 \<le> dc_rating d \<and> dc_rating d \<le> 5"
  by (auto simp: validate_DriverCreate_def rating_in_range_def Let_def split: option.splits)

lemma validate_DriverUpdate_ok:
  "rating_in_range (du_rating u) \<Longrightarrow> validate_DriverUpdate u = Inr u"
  by (auto simp: validate_DriverUpdate_def rating_in_range_def split: option.splits)

lemma car_id_precheck_taken:
  assumes "V \<noteq> 0" and "V \<in> c_id ` set (cars s)" and "A \<in> set (drivers s)"
    and "d_car_id A = Some V"
  shows "car_id_precheck (Some V) s = Some (HTTPException 400 Car_already_assigned)"
proof -
  have "select_car_by_id V s \<noteq> None"
    using assms(2) by (simp add: select_car_by_id_def find_None_iff_key)
  moreover have "find (\<lambda>d. d_car_id d = Some V) (drivers s) \<noteq> None"
    using assms(3,4) by (rule find_member_not_None)
  ultimately show ?thesis using assms(1) by (simp add: car_id_precheck_def)
qed

lemma resolve_car_id_taken:
  assumes "V \<noteq> 0" and "V \<in> c_id ` set (cars s)" and "A \<in> set (drivers s)"
    and "d_car_id A = Some V" and "d_id A \<noteq> i" and "du_car_id u = Some V"
  shows "resolve_car_id i u s = Inl (HTTPException 400 Car_already_assigned)"
proof -
  have "select_car_by_id V s \<noteq> None"
    using assms(2) by (simp add: select_car_by_id_def find_None_iff_key)
  moreover have "find (\<lambda>d. d_car_id d = Some V \<and> d_id d \<noteq> i) (drivers s) \<noteq> None"
    using assms(3) by (rule find_member_not_None) (simp add: assms(4,5))
  ultimately show ?thesis using assms(1,6) by (simp add: resolve_car_id_def)
qed

lemma create_driver_taken:
  assumes "V \<noteq> 0" and "V \<in> c_id ` set (cars s)" and "A \<in> set (drivers s)"
    and "d_car_id A = Some V" and "db_car_id body = Some V"
    and "rating_in_range (db_rating body)"
  shows "create_driver body now s = (Inl (HTTPException 400 Car_already_assigned), s)"
proof -
  obtain d where d: "validate_DriverCreate body = Inr d" "dc_car_id d = Some V"
    using validate_DriverCreate_ok [OF assms(6)] assms(5) by auto
  have "car_id_precheck (dc_car_id d) s = Some (HTTPException 400 Car_already_assigned)"
    using car_id_precheck_taken [OF assms(1-4)] d(2) by simp
  then show ?thesis by (simp add: create_driver_def d(1) get_db_def)
qed

lemma update_driver_taken:
  assumes "V \<noteq> 0" and "V \<in> c_id ` set (cars s)" and "A \<in> set (drivers s)"
    and "d_car_id A = Some V" and "B \<in> set (drivers s)" and "d_id A \<noteq> d_id B"
    and "du_car_id u = Some V" and "rating_in_range (du_rating u)"
  shows "update_driver (d_id B) u s = (Inl (HTTPException 400 Car_already_assigned), s)"
proof -
  have sel: "select_driver_by_id (d_id B) s \<noteq> None"
    using assms(5) by (simp add: select_driver_by_id_def find_None_iff_key)
  have res: "resolve_car_id (d_id B) u s = Inl (HTTPException 400 Car_already_assigned)"
    using assms(1-4,6,7) by (rule resolve_car_id_taken)
  show ?thesis
    using sel by (simp add: update_driver_def validate_DriverUpdate_ok [OF assms(8)] get_db_def res)
qed

lemma checks_ignore_is_active:
  "car_id_precheck x (set_all_active b s) = car_id_precheck x s
 \<and> resolve_car_id i u (set_all_active b s) = resolve_car_id i u s"
proof -
  have "(find (\<lambda>d. d_car_id d = Some v) (map (\<lambda>d. d\<lparr>d_is_active := b\<rparr>) (drivers s)) = None)
      = (find (\<lambda>d. d_car_id d = Some v) (drivers s) = None)" for v
    by (auto simp: find_None_iff)
  moreover have "(find (\<lambda>d. d_car_id d = Some v \<and> d_id d \<noteq> i)
          (map (\<lambda>d. d\<lparr>d_is_active := b\<rparr>) (drivers s)) = None)
      = (find (\<lambda>d. d_car_id d = Some v \<and> d_id d \<noteq> i) (drivers s) = None)" for v
    by (auto simp: find_None_iff)
  ultimately show ?thesis
    by (simp add: car_id_precheck_def resolve_car_id_def set_all_active_def
        select_car_by_id_def split: option.splits)
qed

text \<open>
  Claim C10. The exclusivity check does not look at the active flag: when the driver holding
  \<open>V\<close> is inactive, creating a driver for \<open>V\<close> and updating any other driver to \<open>V\<close> fail with
  the 400 "already assigned" conflict, the store unchanged; and neither the check of
  \<open>create_driver\<close> nor that of \<open>update_driver\<close> changes its outcome when the active flags of
  the drivers are set to any value.
\<close>

theorem inactive_holder_blocks_assignment:
  assumes "store_ok s" and "A \<in> set (drivers s)" and "\<not> d_is_active A"
    and "d_car_id A = Some V" and "V \<in> c_id ` set (cars s)"
  shows "(db_car_id body = Some V \<and> rating_in_range (db_rating body) \<longrightarrow>
            create_driver body now s = (Inl (HTTPException 400 Car_already_assigned), s))
       \<and> (B \<in> set (drivers s) \<and> d_id B \<noteq> d_id A \<and> du_car_id u = Some V
            \<and> rating_in_range (du_rating u) \<longrightarrow>
            update_driver (d_id B) u s = (Inl (HTTPException 400 Car_already_assigned), s))
       \<and> car_id_precheck x (set_all_active b s) = car_id_precheck x s
       \<and> resolve_car_id i u' (set_all_active b s) = resolve_car_id i u' s"
proof -
  have cok: "cars_ok s" using assms(1) by (simp add: store_ok_def)
  obtain c where c: "c \<in> set (cars s)" "c_id c = V" using assms(5) by auto
  have V: "V \<noteq> 0" using cars_ok_row [OF cok c(1)] c(2) by simp
  have 1: "create_driver body now s = (Inl (HTTPException 400 Car_already_assigned), s)"
    if "db_car_id body = Some V \<and> rating_in_range (db_rating body)"
    using create_driver_taken [OF V assms(5,2,4)] that by blast
  have 2: "update_driver (d_id B) u s = (Inl (HTTPException 400 Car_already_assigned), s)"
    if "B \<in> set (drivers s) \<and> d_id B \<noteq> d_id A \<and> du_car_id u = Some V
          \<and> rating_in_range (du_rating u)"
    using update_driver_taken [OF V assms(5,2,4), of B u] that by metis
  show ?thesis using 1 2 checks_ignore_is_active by blast
qed

lemma inactive_db_eq:
  "inactive_db =
     seed_db\<lparr>drivers :=
        [\<lparr>d_id = 1, d_full_name = ''Ivanov Ivan Ivanovich'', d_phone = ''+79001234567'',
          d_rating = 4.9, d_car_id = Some 1, d_is_active = False, d_created_at = 0\<rparr>,
         \<lparr>d_id = 2, d_full_name = ''Petrov Petr Petrovich'', d_phone = ''+79007654321'',
          d_rating = 4.7, d_car_id = Some 2, d_is_active = True, d_created_at = 0\<rparr>,
         \<lparr>d_id = 3, d_full_name = ''Sidorov Sidor Sidorovich'', d_phone = ''+79005554433'',
          d_rating = 5, d_car_id = Some 4, d_is_active = True, d_created_at = 0\<rparr>,
         \<lparr>d_id = 4, d_full_name = ''Smirnov Aleksei Vladimirovich'', d_phone = ''+79004443322'',
          d_rating = 4.5, d_car_id = Some 5, d_is_active = True, d_created_at = 0\<rparr>,
         \<lparr>d_id = 5, d_full_name = ''Kozlov Dmitrii Nikolaevich'', d_phone = ''+79003332211'',
          d_rating = 4.8, d_car_id = Some 7, d_is_active = True, d_created_at = 0\<rparr>]\<rparr>"
  by (simp add: inactive_db_def update_driver_def validate_DriverUpdate_def no_driver_update_def
      get_db_def select_driver_by_id_def resolve_car_id_def driver_fields_def
      update_drivers_where_id_def driver_row_violation_def List.map_filter_def
      fetch_driver_out_def DriverOut_def Let_def seed_db_eq)

lemma store_ok_inactive_db: "store_ok inactive_db"
  by (simp add: inactive_db_eq seed_db_eq store_ok_def cars_ok_def drivers_ok_def)

theorem inactive_holder_blocks_assignment_witness:
  "store_ok inactive_db
 \<and> create_driver \<lparr>db_full_name = ''Olga'', db_phone = ''+70000000003'', db_rating = Some 4,
                  db_car_id = Some 1\<rparr> 6 inactive_db
     = (Inl (HTTPException 400 Car_already_assigned), inactive_db)
 \<and> update_driver 3 (no_driver_update\<lparr>du_car_id := Some 1\<rparr>) inactive_db
     = (Inl (HTTPException 400 Car_already_assigned), inactive_db)"
  using store_ok_inactive_db
    inactive_holder_blocks_assignment [OF store_ok_inactive_db,
      of "\<lparr>d_id = 1, d_full_name = ''Ivanov Ivan Ivanovich'', d_phone = ''+79001234567'',
           d_rating = 4.9, d_car_id = Some 1, d_is_active = False, d_created_at = 0\<rparr>" 1
         "\<lparr>db_full_name = ''Olga'', db_phone = ''+70000000003'', db_rating = Some 4,
           db_car_id = Some 1\<rparr>" 6
         "\<lparr>d_id = 3, d_full_name = ''Sidorov Sidor Sidorovich'', d_phone = ''+79005554433'',
           d_rating = 5, d_car_id = Some 4, d_is_active = True, d_created_at = 0\<rparr>"
         "no_driver_update\<lparr>du_car_id := Some 1\<rparr>"]
  by (simp add: inactive_db_eq seed_db_eq rating_in_range_def no_driver_update_def)

section \<open>Creating a driver with vehicle reference 0\<close>

lemma fetch_new_driver:
  assumes "d_id row = next_rowid (drivers_seq s) (map d_id (drivers s))"
    and "0 \<le> d_rating row" and "d_rating row \<le> 5"
  shows "fetch_driver_out (d_id row) (s\<lparr>drivers := drivers s @ [row], drivers_seq := q\<rparr>)
           = (Inr row, s\<lparr>drivers := drivers s @ [row], drivers_seq := q\<rparr>)"
proof -
  have "\<forall>x \<in> set (drivers s). d_id x \<noteq> d_id row"
    using next_rowid_gt_ids [of _ "map d_id (drivers s)" "drivers_seq s"] assms(1) by fastforce
  then have "find (\<lambda>d. d_id d = d_id row) (drivers s @ [row]) = Some row"
    by (intro find_append_last) auto
  then show ?thesis
    using assms(2,3) by (simp add: fetch_driver_out_def select_driver_by_id_def DriverOut_def)
qed

lemma create_driver_invalid:
  "\<not> rating_in_range (db_rating body) \<Longrightarrow>
   create_driver body now s = (Inl RequestValidationError, s)"
  by (auto simp: create_driver_def validate_DriverCreate_def rating_in_range_def raise_def
      Let_def split: option.splits)

lemma create_driver_unchecked:
  assumes valid: "rating_in_range (db_rating body)"
    and pre: "car_id_precheck (db_car_id body) s = None"
  shows "create_driver body now s =
           (if db_car_id body \<noteq> None \<and> db_car_id body \<in> d_car_id ` set (drivers s)
              then (Inl (HTTPException 400 Integrity_error), s)
            else if db_phone body \<in> d_phone ` set (drivers s)
              then (Inl (HTTPException 400 Phone_exists), s)
            else (Inr (new_driver_row body now s),
                  s\<lparr>drivers := drivers s @ [new_driver_row body now s],
                    drivers_seq := d_id (new_driver_row body now s)\<rparr>))"
proof -
  let ?row = "new_driver_row body now s"
  let ?d = "\<lparr>dc_full_name = db_full_name body, dc_phone = db_phone body,
             dc_rating = d_rating ?row, dc_car_id = db_car_id body\<rparr>"
  have rt: "0 \<le> d_rating ?row \<and> d_rating ?row \<le> 5"
    using valid by (simp add: new_driver_row_def rating_in_range_def split: option.splits)
  have v: "validate_DriverCreate body = Inr ?d"
    using rt by (simp add: validate_DriverCreate_def new_driver_row_def Let_def)
  have fetch: "fetch_driver_out (d_id ?row) (s\<lparr>drivers := drivers s @ [?row], drivers_seq := d_id ?row\<rparr>)
           = (Inr ?row, s\<lparr>drivers := drivers s @ [?row], drivers_seq := d_id ?row\<rparr>)"
    using rt by (intro fetch_new_driver) (simp_all add: new_driver_row_def)
  have ins: "insert_driver (db_full_name body) (db_phone body) (d_rating ?row) (db_car_id body) now s
      = (if db_car_id body \<noteq> None \<and> db_car_id body \<in> d_car_id ` set (drivers s)
           then Inl UNIQUE_drivers_car_id
         else if db_phone body \<in> d_phone ` set (drivers s) then Inl UNIQUE_drivers_phone
         else Inr (d_id ?row, s\<lparr>drivers := drivers s @ [?row], drivers_seq := d_id ?row\<rparr>))"
    using rt by (simp add: insert_driver_def new_driver_row_def Let_def)
  show ?thesis
    using pre fetch by (simp add: create_driver_def v get_db_def ins)
qed

text \<open>
  Claim C9. When \<open>create_driver\<close> is given the vehicle reference 0, the pre-check is passed
  over (no vehicle 0 need exist, and neither "does not exist" nor "already assigned" is ever
  the answer); whenever the operation succeeds, the driver row it appends to the table holds
  the reference \<open>Some 0\<close>, not null; and it does succeed when the rating is valid and neither
  the phone nor the reference 0 is already in the table.
\<close>

theorem create_driver_car_id_zero:
  assumes "db_car_id body = Some 0"
  shows "car_id_precheck (db_car_id body) s = None
       \<and> fst (create_driver body now s) \<noteq> Inl (HTTPException 400 Car_id_does_not_exist)
       \<and> fst (create_driver body now s) \<noteq> Inl (HTTPException 400 Car_already_assigned)
       \<and> (\<forall>r s'. create_driver body now s = (Inr r, s') \<longrightarrow>
             d_car_id r = Some 0 \<and> drivers s' = drivers s @ [r])
       \<and> (rating_in_range (db_rating body) \<and> db_phone body \<notin> d_phone ` set (drivers s)
            \<and> Some 0 \<notin> d_car_id ` set (drivers s) \<longrightarrow>
             (\<exists>r s'. create_driver body now s = (Inr r, s')))"
proof -
  have pre: "car_id_precheck (db_car_id body) s = None"
    using assms by (simp add: car_id_precheck_def)
  show ?thesis
  proof (cases "rating_in_range (db_rating body)")
    case False
    then show ?thesis using pre create_driver_invalid [of body now s] by simp
  next
    case True
    have "d_car_id (new_driver_row body now s) = Some 0"
      using assms by (simp add: new_driver_row_def)
    then show ?thesis
      using pre assms by (simp add: create_driver_unchecked [OF True pre])
  qed
qed

theorem create_driver_car_id_zero_witness:
  "\<exists>r s'. create_driver \<lparr>db_full_name = ''Pavel'', db_phone = ''+70000000004'',
                            db_rating = None, db_car_id = Some 0\<rparr> 8 empty_db = (Inr r, s')
          \<and> d_car_id r = Some 0 \<and> drivers s' = drivers empty_db @ [r]"
proof -
  let ?body = "\<lparr>db_full_name = ''Pavel'', db_phone = ''+70000000004'', db_rating = None,
                 db_car_id = Some 0\<rparr>"
  have h: "db_car_id ?body = Some 0" by simp
  note T = create_driver_car_id_zero [OF h, of empty_db 8]
  have a: "rating_in_range (db_rating ?body) \<and> db_phone ?body \<notin> d_phone ` set (drivers empty_db)
            \<and> Some 0 \<notin> d_car_id ` set (drivers empty_db)"
    by (simp add: rating_in_range_def empty_db_def)
  have ex: "\<exists>r s'. create_driver ?body 8 empty_db = (Inr r, s')"
    using T [THEN conjunct2, THEN conjunct2, THEN conjunct2, THEN conjunct2] a by (rule mp)
  then obtain r s' where rs: "create_driver ?body 8 empty_db = (Inr r, s')" by (elim exE)
  have c: "d_car_id r = Some 0 \<and> drivers s' = drivers empty_db @ [r]"
    using T [THEN conjunct2, THEN conjunct2, THEN conjunct2, THEN conjunct1, rule_format, OF rs] .
  show ?thesis
    by (rule exI [of _ r], rule exI [of _ s']) (intro conjI rs c [THEN conjunct1] c [THEN conjunct2])
qed

section \<open>Listings\<close>

lemma filter_at_most_one:
  assumes "distinct (map f xs)"
    and "\<And>x y. x \<in> set xs \<Longrightarrow> y \<in> set xs \<Longrightarrow> P x \<Longrightarrow> P y \<Longrightarrow> f x = f y"
  shows "filter P xs = [] \<or> (\<exists>x. filter P xs = [x])"
  using assms
proof (induction xs)
  case Nil
  then show ?case by simp
next
  case (Cons a xs)
  show ?case
  proof (cases "P a")
    case True
    have "\<not> P y" if "y \<in> set xs" for y
    proof
      assume "P y"
      then have "f a = f y" using Cons.prems(2) [of a y] True that by simp
      then show False using Cons.prems(1) that by auto
    qed
    then have "filter P xs = []" by (simp add: filter_empty_conv)
    then show ?thesis using True by simp
  next
    case False
    have "filter P xs = [] \<or> (\<exists>x. filter P xs = [x])"
    proof (rule Cons.IH)
      show "distinct (map f xs)" using Cons.prems(1) by simp
      show "\<And>x y. x \<in> set xs \<Longrightarrow> y \<in> set xs \<Longrightarrow> P x \<Longrightarrow> P y \<Longrightarrow> f x = f y"
        using Cons.prems(2) by simp
    qed
    then show ?thesis using False by simp
  qed
qed

lemma find_as_filter: "find P xs = (case filter P xs of [] \<Rightarrow> None | x # _ \<Rightarrow> Some x)"
  by (induction xs) auto

lemma join_case_single:
  assumes "filter P xs = [] \<or> (\<exists>x. filter P xs = [x])"
  shows "(case filter P xs of [] \<Rightarrow> [(c, None)] | ds \<Rightarrow> map (\<lambda>d. (c, Some d)) ds) = [(c, find P xs)]"
  using assms by (auto simp: find_as_filter)

lemma collect_map_ok: "(\<And>x. x \<in> set xs \<Longrightarrow> f x = Inr (g x)) \<Longrightarrow> collect (map f xs) = Inr (map g xs)"
  by (induction xs) simp_all

lemma collect_length: "collect ys = Inr xs \<Longrightarrow> length xs = length ys"
  by (induction ys arbitrary: xs) (auto split: sum.splits)

lemma map_insort_key:
  "map f (insort_key (\<lambda>x. k (f x)) a xs) = insort_key k (f a) (map f xs)"
  by (induction xs) simp_all

lemma map_sort_key: "map f (sort_key (\<lambda>x. k (f x)) xs) = sort_key k (map f xs)"
  by (induction xs) (simp_all add: map_insort_key)

lemma cars_join_rows:
  assumes "drivers_ok s"
  shows "cars_left_join_drivers s = map (\<lambda>c. (c, assigned_driver s c)) (cars s)"
proof -
  have one: "filter (\<lambda>d. d_car_id d = Some v) (drivers s) = []
           \<or> (\<exists>x. filter (\<lambda>d. d_car_id d = Some v) (drivers s) = [x])" for v
  proof (rule filter_at_most_one [where f = d_id])
    show "distinct (map d_id (drivers s))" using assms by (rule drivers_ok_distinct)
    show "\<And>x y. x \<in> set (drivers s) \<Longrightarrow> y \<in> set (drivers s) \<Longrightarrow> d_car_id x = Some v \<Longrightarrow>
            d_car_id y = Some v \<Longrightarrow> d_id x = d_id y"
      using drivers_ok_car_id [OF assms] by blast
  qed
  show ?thesis
    unfolding cars_left_join_drivers_def assigned_driver_def
    by (simp add: join_case_single [OF one])
qed

lemma drivers_join_rows:
  assumes "cars_ok s"
  shows "drivers_left_join_cars s = map (\<lambda>d. (d, assigned_car s d)) (drivers s)"
proof -
  have one: "filter (\<lambda>c. x = Some (c_id c)) (cars s) = []
           \<or> (\<exists>y. filter (\<lambda>c. x = Some (c_id c)) (cars s) = [y])" for x
  proof (rule filter_at_most_one [where f = c_id])
    show "distinct (map c_id (cars s))" using assms by (rule cars_ok_distinct)
    show "\<And>a b. a \<in> set (cars s) \<Longrightarrow> b \<in> set (cars s) \<Longrightarrow> x = Some (c_id a) \<Longrightarrow>
            x = Some (c_id b) \<Longrightarrow> c_id a = c_id b"
      by simp
  qed
  show ?thesis
    unfolding drivers_left_join_cars_def assigned_car_def
    by (simp add: join_case_single [OF one])
qed

lemma assigned_driver_Some:
  "assigned_driver s c = Some d \<Longrightarrow> d \<in> set (drivers s) \<and> d_car_id d = Some (c_id c)"
  by (auto simp: assigned_driver_def find_Some_iff)

lemma assigned_car_Some:
  "assigned_car s d = Some c \<Longrightarrow> c \<in> set (cars s) \<and> d_car_id d = Some (c_id c)"
  by (auto simp: assigned_car_def find_Some_iff)

lemma car_with_driver_of_row_ok:
  assumes "cars_ok s" and "drivers_ok s" and "c \<in> set (cars s)"
  shows "car_with_driver_of_row (c, assigned_driver s c) = Inr (with_driver c (assigned_driver s c))"
proof (cases "assigned_driver s c")
  case None
  then show ?thesis
    using CarOut_ok [OF assms(1,3)] by (simp add: car_with_driver_of_row_def)
next
  case (Some d)
  have d: "d \<in> set (drivers s)" "d_car_id d = Some (c_id c)"
    using assigned_driver_Some [OF Some] by simp_all
  have same: "d\<lparr>d_car_id := Some (c_id c)\<rparr> = d" using d(2) by simp
  have "d_id d \<noteq> 0" using drivers_ok_row [OF assms(2) d(1)] by simp
  then show ?thesis
    using CarOut_ok [OF assms(1,3)] DriverOut_ok [OF assms(2) d(1)] Some
    by (simp add: car_with_driver_of_row_def same)
qed

lemma driver_with_car_of_row_ok:
  assumes "cars_ok s" and "drivers_ok s" and "d \<in> set (drivers s)"
  shows "driver_with_car_of_row (d, assigned_car s d) = Inr (with_car d (assigned_car s d))"
proof (cases "assigned_car s d")
  case None
  then show ?thesis
    using DriverOut_ok [OF assms(2,3)] by (simp add: driver_with_car_of_row_def)
next
  case (Some c)
  have c: "c \<in> set (cars s)" using assigned_car_Some [OF Some] by simp
  have "c_id c \<noteq> 0" using cars_ok_row [OF assms(1) c] by simp
  then show ?thesis
    using DriverOut_ok [OF assms(2,3)] CarOut_ok [OF assms(1) c] Some
    by (simp add: driver_with_car_of_row_def)
qed

lemma truncate_with_driver: "car_row.truncate (with_driver c x) = c"
  by (simp add: with_driver_def car_row.truncate_def)

lemma truncate_with_car: "driver_row.truncate (with_car d x) = d"
  by (simp add: with_car_def driver_row.truncate_def)

lemma get_cars_by_status:
  assumes ok: "store_ok s" and lim: "1 \<le> limit" "limit \<le> 500"
    and off: "0 \<le> offset" "offset < 2 ^ 63"
  shows "get_cars (Some st) None None limit offset s =
           (Inr (map (\<lambda>c. with_driver c (assigned_driver s c))
                   (take (nat limit) (drop (nat offset)
                      (sort_key c_id (filter (\<lambda>c. c_status c = st) (cars s)))))), s)"
proof -
  have cok: "cars_ok s" and dok: "drivers_ok s" using ok by (simp_all add: store_ok_def)
  let ?g = "\<lambda>c. (c, assigned_driver s c)"
  let ?sel = "take (nat limit) (drop (nat offset)
                (sort_key c_id (filter (\<lambda>c. c_status c = st) (cars s))))"
  have flt: "filter (\<lambda>(c, j). c_status c = st) (map ?g (cars s))
               = map ?g (filter (\<lambda>c. c_status c = st) (cars s))"
    by (simp add: filter_map comp_def)
  have srt: "sort_key (\<lambda>(c, j). c_id c) (map ?g xs) = map ?g (sort_key c_id xs)" for xs
    using map_sort_key [of ?g "\<lambda>(c, j). c_id c" xs, symmetric]
    by (simp add: case_prod_beta)
  have rows: "take (nat limit) (drop (nat offset)
                (sort_key (\<lambda>(c, j). c_id c)
                   (filter (\<lambda>(c, j). c_status c = st) (cars_left_join_drivers s))))
              = map ?g ?sel"
    by (simp only: cars_join_rows [OF dok] flt srt take_map drop_map)
  have sub: "set ?sel \<subseteq> set (cars s)"
    using set_take_subset [of "nat limit" "drop (nat offset)
            (sort_key c_id (filter (\<lambda>c. c_status c = st) (cars s)))"]
      set_drop_subset [of "nat offset" "sort_key c_id (filter (\<lambda>c. c_status c = st) (cars s))"]
    by auto
  have col: "collect (map car_with_driver_of_row (map ?g ?sel))
               = Inr (map (\<lambda>c. with_driver c (assigned_driver s c)) ?sel)"
    unfolding map_map comp_def
    by (rule collect_map_ok) (use sub car_with_driver_of_row_ok [OF cok dok] in blast)
  have "get_cars (Some st) None None limit offset s =
          get_db (\<lambda>s. (collect (map car_with_driver_of_row
             (take (nat limit) (drop (nat offset)
                (sort_key (\<lambda>(c, j). c_id c)
                   (filter (\<lambda>(c, j). c_status c = st) (cars_left_join_drivers s)))))), s)) s"
    using lim off by (simp add: get_cars_def opt_ge0_def sqlite_int_def Let_def)
  then show ?thesis
    by (simp only: get_db_def rows col prod.case sum.case)
qed

subsection \<open>Vehicles in repair\<close>

lemma get_cars_in_repair_eq:
  assumes "cars_ok s"
  shows "get_cars_in_repair s = (Inr (filter (\<lambda>c. c_status c = REPAIR) (cars s)), s)"
proof -
  have "collect (map CarOut (filter (\<lambda>c. c_status c = REPAIR) (cars s)))
          = Inr (map (\<lambda>c. c) (filter (\<lambda>c. c_status c = REPAIR) (cars s)))"
    by (rule collect_map_ok) (use CarOut_ok [OF assms] in simp)
  then show ?thesis by (simp add: get_cars_in_repair_def get_db_def)
qed

lemma truncate_listing:
  "map car_row.truncate (map (\<lambda>c. with_driver c (f c)) xs) = xs"
  by (induction xs) (simp_all add: truncate_with_driver)

lemma store_ok_repair_db: "store_ok (repair_db n)"
proof -
  have mem: "\<exists>k < n. c = repair_car (Suc k)" if "c \<in> set (cars (repair_db n))" for c
    using that by (auto simp: repair_db_def)
  have ids: "map c_id (cars (repair_db n)) = map (\<lambda>k. int (Suc k)) [0..<n]"
    by (simp add: repair_db_def repair_car_def comp_def)
  have "distinct (map (\<lambda>k. int (Suc k)) [0..<n])"
    by (simp add: distinct_map inj_on_def)
  then have 1: "distinct (map c_id (cars (repair_db n)))"
    by (simp only: ids)
  have 2: "1 \<le> c_id c \<and> c_id c \<le> cars_seq (repair_db n) \<and> 0 < c_distance c"
    if c: "c \<in> set (cars (repair_db n))" for c
  proof -
    obtain k where "k < n" "c = repair_car (Suc k)" using mem [OF c] by blast
    then show ?thesis by (simp add: repair_db_def repair_car_def)
  qed
  have 3: "c_id c = c_id c'"
    if c: "c \<in> set (cars (repair_db n))" and c': "c' \<in> set (cars (repair_db n))"
      and eq: "c_license_plate c = c_license_plate c'" for c c'
  proof -
    obtain k where k: "c = repair_car (Suc k)" using mem [OF c] by blast
    obtain k' where k': "c' = repair_car (Suc k')" using mem [OF c'] by blast
    have "replicate (Suc k) CHR ''R'' = replicate (Suc k') CHR ''R''"
      using eq unfolding k k' repair_car_def by simp
    then have "length (replicate (Suc k) CHR ''R'') = length (replicate (Suc k') CHR ''R'')"
      by (rule arg_cong)
    then have "k = k'" by simp
    then show ?thesis by (simp add: k k')
  qed
  have 0: "0 \<le> cars_seq (repair_db n)" by (simp add: repair_db_def)
  have "cars_ok (repair_db n)"
    unfolding cars_ok_def using 0 1 2 3 by blast
  moreover have "drivers_ok (repair_db n)"
    by (simp add: drivers_ok_def repair_db_def)
  ultimately show ?thesis by (simp add: store_ok_def)
qed

lemma repair_db_all_in_repair:
  "filter (\<lambda>c. c_status c = REPAIR) (cars (repair_db n)) = cars (repair_db n)"
  by (simp add: repair_db_def repair_car_def filter_map comp_def)

lemma length_cars_repair_db: "length (cars (repair_db n)) = n"
  by (simp add: repair_db_def)

text \<open>
  Claim C7 says that the listing with status \<open>REPAIR\<close> and default pagination returns the
  same set of vehicles as the in-repair operation in every store. The default \<open>limit\<close> is
  100: on a store with 101 vehicles in repair the listing returns 100 of them and the
  in-repair operation all 101.
\<close>

theorem repair_listing_truncated:
  "set (map car_row.truncate (returned (get_cars (Some REPAIR) None None 100 0 many_repair_db)))
     \<noteq> set (returned (get_cars_in_repair many_repair_db))"
proof -
  let ?s = many_repair_db
  let ?rep = "filter (\<lambda>c. c_status c = REPAIR) (cars ?s)"
  let ?sel = "take (nat 100) (drop (nat 0) (sort_key c_id ?rep))"
  have ok: "store_ok ?s" unfolding many_repair_db_def by (rule store_ok_repair_db)
  have cok: "cars_ok ?s" using ok by (simp add: store_ok_def)
  have rep: "?rep = cars ?s" unfolding many_repair_db_def by (rule repair_db_all_in_repair)
  have 1: "returned (get_cars (Some REPAIR) None None 100 0 ?s)
             = map (\<lambda>c. with_driver c (assigned_driver ?s c)) ?sel"
    using get_cars_by_status [OF ok, of 100 0 REPAIR]
    by (simp add: returned_def)
  have 2: "returned (get_cars_in_repair ?s) = cars ?s"
    using get_cars_in_repair_eq [OF cok] rep by (simp add: returned_def)
  have "card (set ?sel) \<le> length ?sel" by (rule card_length)
  also have "\<dots> \<le> 100" by simp
  finally have small: "card (set ?sel) \<le> 100" .
  have "distinct (cars ?s)" using cars_ok_distinct [OF cok] by (simp add: distinct_map)
  then have "card (set (cars ?s)) = length (cars ?s)" by (rule distinct_card)
  also have "\<dots> = 101" unfolding many_repair_db_def by (rule length_cars_repair_db)
  finally have big: "card (set (cars ?s)) = 101" .
  have "set ?sel \<noteq> set (cars ?s)"
  proof
    assume "set ?sel = set (cars ?s)"
    then have "card (set ?sel) = card (set (cars ?s))" by (rule arg_cong)
    then show False using small big by simp
  qed
  then show ?thesis unfolding 1 2 truncate_listing .
qed

text \<open>
  Claim C7, amended. In every well-formed store with at most 100 vehicles in repair, the
  listing with status \<open>REPAIR\<close> and default pagination and the in-repair operation both
  succeed, leave the store unchanged, and return the same set of vehicles (the listing's
  driver field set aside).
\<close>

theorem repair_listing_matches_when_it_fits:
  assumes "store_ok s" and "length (filter (\<lambda>c. c_status c = REPAIR) (cars s)) \<le> 100"
  shows "\<exists>xs ys. get_cars (Some REPAIR) None None 100 0 s = (Inr xs, s)
               \<and> get_cars_in_repair s = (Inr ys, s)
               \<and> set (map car_row.truncate xs) = set ys"
proof -
  let ?rep = "filter (\<lambda>c. c_status c = REPAIR) (cars s)"
  let ?sel = "take (nat 100) (drop (nat 0) (sort_key c_id ?rep))"
  let ?xs = "map (\<lambda>c. with_driver c (assigned_driver s c)) ?sel"
  have cok: "cars_ok s" using assms(1) by (simp add: store_ok_def)
  have 1: "get_cars (Some REPAIR) None None 100 0 s = (Inr ?xs, s)"
    using get_cars_by_status [OF assms(1), of 100 0 REPAIR] by simp
  have 2: "get_cars_in_repair s = (Inr ?rep, s)" using cok by (rule get_cars_in_repair_eq)
  have "?sel = sort_key c_id ?rep" using assms(2) by simp
  then have 3: "set (map car_row.truncate ?xs) = set ?rep"
    by (simp only: truncate_listing set_sort)
  show ?thesis using 1 2 3 by blast
qed

theorem repair_listing_matches_when_it_fits_witness:
  "store_ok seed_db
 \<and> length (filter (\<lambda>c. c_status c = REPAIR) (cars seed_db)) \<le> 100
 \<and> (\<exists>xs ys. get_cars (Some REPAIR) None None 100 0 seed_db = (Inr xs, seed_db)
            \<and> get_cars_in_repair seed_db = (Inr ys, seed_db)
            \<and> set (map car_row.truncate xs) = set ys)"
proof -
  have len: "length (filter (\<lambda>c. c_status c = REPAIR) (cars seed_db)) \<le> 100"
    by (simp add: seed_db_eq)
  show ?thesis
    using store_ok_seed_db len
      repair_listing_matches_when_it_fits [OF store_ok_seed_db len]
    by (intro conjI)
qed

subsection \<open>Driver listing\<close>

lemma get_drivers_by_rating_active:
  assumes ok: "store_ok s" and r: "0 \<le> r" "r \<le> 5"
    and lim: "1 \<le> limit" "limit \<le> 500" and off: "0 \<le> offset" "offset < 2 ^ 63"
  shows "get_drivers (Some r) True limit offset s =
           (Inr (map (\<lambda>d. with_car d (assigned_car s d))
                   (take (nat limit) (drop (nat offset)
                      (sort_key d_id
                         (filter (\<lambda>d. r \<le> d_rating d \<and> d_is_active d) (drivers s)))))), s)"
proof -
  have cok: "cars_ok s" and dok: "drivers_ok s" using ok by (simp_all add: store_ok_def)
  let ?g = "\<lambda>d. (d, assigned_car s d)"
  let ?P = "\<lambda>d. r \<le> d_rating d \<and> d_is_active d"
  let ?sel = "take (nat limit) (drop (nat offset) (sort_key d_id (filter ?P (drivers s))))"
  have flt: "filter (\<lambda>(d, j). r \<le> d_rating d \<and> d_is_active d) (map ?g (drivers s))
               = map ?g (filter ?P (drivers s))"
    by (simp add: filter_map comp_def)
  have srt: "sort_key (\<lambda>(d, j). d_id d) (map ?g xs) = map ?g (sort_key d_id xs)" for xs
    using map_sort_key [of ?g "\<lambda>(d, j). d_id d" xs, symmetric]
    by (simp add: case_prod_beta)
  have rows: "take (nat limit) (drop (nat offset)
                (sort_key (\<lambda>(d, j). d_id d)
                   (filter (\<lambda>(d, j). r \<le> d_rating d \<and> d_is_active d)
                      (drivers_left_join_cars s))))
              = map ?g ?sel"
    by (simp only: drivers_join_rows [OF cok] flt srt take_map drop_map)
  have sub: "set ?sel \<subseteq> set (drivers s)"
    using set_take_subset [of "nat limit" "drop (nat offset)
            (sort_key d_id (filter ?P (drivers s)))"]
      set_drop_subset [of "nat offset" "sort_key d_id (filter ?P (drivers s))"]
    by auto
  have col: "collect (map driver_with_car_of_row (map ?g ?sel))
               = Inr (map (\<lambda>d. with_car d (assigned_car s d)) ?sel)"
    unfolding map_map comp_def
    by (rule collect_map_ok) (use sub driver_with_car_of_row_ok [OF cok dok] in blast)
  have "get_drivers (Some r) True limit offset s =
          get_db (\<lambda>s. (collect (map driver_with_car_of_row
             (take (nat limit) (drop (nat offset)
                (sort_key (\<lambda>(d, j). d_id d)
                   (filter (\<lambda>(d, j). r \<le> d_rating d \<and> d_is_active d)
                      (drivers_left_join_cars s)))))), s)) s"
    using r lim off by (simp add: get_drivers_def sqlite_int_def Let_def)
  then show ?thesis
    by (simp only: get_db_def rows col prod.case sum.case)
qed

lemma truncate_driver_listing:
  "map driver_row.truncate (map (\<lambda>d. with_car d (f d)) xs) = xs"
  by (induction xs) (simp_all add: truncate_with_car)

lemma d_id_driver_listing: "map d_id (map (\<lambda>d. with_car d (f d)) xs) = map d_id xs"
  by (induction xs) (simp_all add: with_car_def)

lemma sorted_window: "sorted (map f (take n (drop m (sort_key f xs))))"
proof -
  have "sorted (map f (sort_key f xs))" by (rule sorted_sort_key)
  then have "sorted (take n (drop m (map f (sort_key f xs))))"
    by (intro sorted_wrt_take sorted_wrt_drop)
  then show ?thesis by (simp only: take_map drop_map)
qed

lemma distinct_window:
  assumes "distinct (map f xs)"
  shows "distinct (map f (take n (drop m (sort_key f (filter P xs)))))"
proof -
  have "distinct (map f (filter P xs))" using assms by (rule distinct_map_filter)
  then have "distinct (map f (sort_key f (filter P xs)))" by (simp add: distinct_map)
  then have "distinct (take n (drop m (map f (sort_key f (filter P xs)))))"
    by (intro distinct_take distinct_drop)
  then show ?thesis by (simp only: take_map drop_map)
qed

text \<open>An \<open>offset\<close> that passes validation but does not fit SQLite's INTEGER makes either
  listing fail with an uncaught exception, whatever the store.\<close>

lemma listing_offset_overflow:
  assumes "1 \<le> limit" and "limit \<le> 500" and "2 ^ 63 \<le> offset"
  shows "get_drivers None only_active limit offset s = (Inl InternalServerError, s)"
    and "get_cars None None None limit offset s = (Inl InternalServerError, s)"
  using assms
  by (simp_all add: get_drivers_def get_cars_def opt_ge0_def sqlite_int_def get_db_def)

text \<open>
  Claim C8. In every well-formed store, for every \<open>offset\<close> that SQLite can bind (below
  \<open>2^63\<close>), the driver listing with minimum rating \<open>r\<close> and the
  active-only flag set succeeds and leaves the store unchanged; the drivers it returns are
  the \<open>limit\<close>/\<open>offset\<close> window of the table's drivers that are active and rated at least
  \<open>r\<close>, taken in ascending order of identifier; each returned driver is a stored driver that
  is active and rated at least \<open>r\<close>; identifiers ascend without repetition; and when the
  window covers all matching drivers, the returned set is exactly the set of stored drivers
  that are active and rated at least \<open>r\<close>.
\<close>

theorem driver_listing_conjunctive:
  assumes "store_ok s" and "0 \<le> r" and "r \<le> 5"
    and "1 \<le> limit" and "limit \<le> 500" and "0 \<le> offset" and "offset < 2 ^ 63"
  shows "\<exists>ws. get_drivers (Some r) True limit offset s = (Inr ws, s)
            \<and> map driver_row.truncate ws =
                 take (nat limit) (drop (nat offset)
                   (sort_key d_id (filter (\<lambda>d. r \<le> d_rating d \<and> d_is_active d) (drivers s))))
            \<and> (\<forall>w \<in> set ws. driver_row.truncate w \<in> set (drivers s)
                               \<and> d_is_active w \<and> r \<le> d_rating w)
            \<and> sorted (map d_id ws) \<and> distinct (map d_id ws)
            \<and> (offset = 0
                 \<and> length (filter (\<lambda>d. r \<le> d_rating d \<and> d_is_active d) (drivers s)) \<le> nat limit
                 \<longrightarrow> set (map driver_row.truncate ws)
                       = {d \<in> set (drivers s). r \<le> d_rating d \<and> d_is_active d})"
proof -
  let ?P = "\<lambda>d. r \<le> d_rating d \<and> d_is_active d"
  let ?sel = "take (nat limit) (drop (nat offset) (sort_key d_id (filter ?P (drivers s))))"
  let ?ws = "map (\<lambda>d. with_car d (assigned_car s d)) ?sel"
  have dok: "drivers_ok s" using assms(1) by (simp add: store_ok_def)
  have 1: "get_drivers (Some r) True limit offset s = (Inr ?ws, s)"
    using assms by (rule get_drivers_by_rating_active)
  have 2: "map driver_row.truncate ?ws = ?sel" by (rule truncate_driver_listing)
  have sub: "set ?sel \<subseteq> set (filter ?P (drivers s))"
    using set_take_subset [of "nat limit" "drop (nat offset) (sort_key d_id (filter ?P (drivers s)))"]
      set_drop_subset [of "nat offset" "sort_key d_id (filter ?P (drivers s))"]
    by auto
  have 3: "driver_row.truncate w \<in> set (drivers s) \<and> d_is_active w \<and> r \<le> d_rating w"
    if w: "w \<in> set ?ws" for w
  proof -
    obtain d where d: "d \<in> set ?sel" "w = with_car d (assigned_car s d)"
      using w by auto
    have "d \<in> set (drivers s) \<and> ?P d" using d(1) sub by auto
    then show ?thesis by (simp add: d(2) truncate_with_car) (simp add: with_car_def)
  qed
  have ids: "map d_id ?ws = map d_id ?sel" by (rule d_id_driver_listing)
  have 4: "sorted (map d_id ?ws)" unfolding ids by (rule sorted_window)
  have 5: "distinct (map d_id ?ws)"
    unfolding ids using drivers_ok_distinct [OF dok] by (rule distinct_window)
  have 6: "set (map driver_row.truncate ?ws) = {d \<in> set (drivers s). ?P d}"
    if h: "offset = 0 \<and> length (filter ?P (drivers s)) \<le> nat limit"
  proof -
    have "?sel = sort_key d_id (filter ?P (drivers s))" using h by simp
    then have "set ?sel = set (filter ?P (drivers s))" by (simp only: set_sort)
    then show ?thesis unfolding 2 by simp
  qed
  show ?thesis
    by (rule exI [of _ ?ws]) (use 1 2 3 4 5 6 in blast)
qed

theorem driver_listing_conjunctive_witness:
  "store_ok seed_db
 \<and> (\<exists>ws. get_drivers (Some 4.8) True 100 0 seed_db = (Inr ws, seed_db)
         \<and> map d_id (map driver_row.truncate ws) = [1, 3, 5])"
proof -
  have T: "\<exists>ws. get_drivers (Some 4.8) True 100 0 seed_db = (Inr ws, seed_db)
            \<and> map driver_row.truncate ws =
                 take (nat 100) (drop (nat 0)
                   (sort_key d_id (filter (\<lambda>d. 4.8 \<le> d_rating d \<and> d_is_active d)
                      (drivers seed_db))))
            \<and> (\<forall>w \<in> set ws. driver_row.truncate w \<in> set (drivers seed_db)
                               \<and> d_is_active w \<and> 4.8 \<le> d_rating w)
            \<and> sorted (map d_id ws) \<and> distinct (map d_id ws)
            \<and> (0 = (0::int)
                 \<and> length (filter (\<lambda>d. 4.8 \<le> d_rating d \<and> d_is_active d) (drivers seed_db))
                     \<le> nat 100
                 \<longrightarrow> set (map driver_row.truncate ws)
                       = {d \<in> set (drivers seed_db). 4.8 \<le> d_rating d \<and> d_is_active d})"
    by (rule driver_listing_conjunctive [OF store_ok_seed_db]) simp_all
  then obtain ws where 1: "get_drivers (Some 4.8) True 100 0 seed_db = (Inr ws, seed_db)"
    and 2: "map driver_row.truncate ws =
                 take (nat 100) (drop (nat 0)
                   (sort_key d_id (filter (\<lambda>d. 4.8 \<le> d_rating d \<and> d_is_active d)
                      (drivers seed_db))))"
    by (elim exE conjE)
  have "map d_id (map driver_row.truncate ws) = [1, 3, 5]"
    unfolding 2 by (simp add: seed_db_eq)
  then show ?thesis using store_ok_seed_db 1 by (intro conjI exI [of _ ws])
qed

section \<open>The operations keep the store well-formed\<close>

lemma cars_ok_intro:
  "0 \<le> cars_seq s \<Longrightarrow> distinct (map c_id (cars s)) \<Longrightarrow>
   (\<And>c. c \<in> set (cars s) \<Longrightarrow> 1 \<le> c_id c \<and> c_id c \<le> cars_seq s \<and> 0 < c_distance c) \<Longrightarrow>
   (\<And>c c'. c \<in> set (cars s) \<Longrightarrow> c' \<in> set (cars s) \<Longrightarrow>
      c_license_plate c = c_license_plate c' \<Longrightarrow> c_id c = c_id c') \<Longrightarrow>
   cars_ok s"
  unfolding cars_ok_def by blast

lemma cars_ok_seq: "cars_ok s \<Longrightarrow> 0 \<le> cars_seq s"
  unfolding cars_ok_def by blast

lemma cars_ok_plate:
  "cars_ok s \<Longrightarrow> c \<in> set (cars s) \<Longrightarrow> c' \<in> set (cars s) \<Longrightarrow>
   c_license_plate c = c_license_plate c' \<Longrightarrow> c_id c = c_id c'"
  unfolding cars_ok_def by blast

lemma drivers_ok_cong:
  "drivers s' = drivers s \<Longrightarrow> drivers_seq s' = drivers_seq s \<Longrightarrow> drivers_ok s' = drivers_ok s"
  by (simp add: drivers_ok_def)

lemma cars_ok_cong:
  "cars s' = cars s \<Longrightarrow> cars_seq s' = cars_seq s \<Longrightarrow> cars_ok s' = cars_ok s"
  by (simp add: cars_ok_def)

lemma create_car_result:
  "create_car body now s =
     (if \<not> 0 < cb_distance body then (Inl RequestValidationError, s)
      else if cb_license_plate body \<in> c_license_plate ` set (cars s)
        then (Inl (HTTPException 400 Plate_exists), s)
      else (Inr (new_car_row body now s),
            s\<lparr>cars := cars s @ [new_car_row body now s],
              cars_seq := c_id (new_car_row body now s)\<rparr>))"
proof -
  let ?row = "new_car_row body now s"
  have "\<forall>x \<in> set (cars s). c_id x \<noteq> c_id ?row"
    using next_rowid_gt_ids [of _ "map c_id (cars s)" "cars_seq s"]
    by (fastforce simp: new_car_row_def)
  then have "find (\<lambda>c. c_id c = c_id ?row) (cars s @ [?row]) = Some ?row"
    by (intro find_append_last) auto
  then have sel: "select_car_by_id (c_id ?row)
       (s\<lparr>cars := cars s @ [?row], cars_seq := c_id ?row\<rparr>) = Some ?row"
    by (simp add: select_car_by_id_def)
  have ins: "insert_car (case cb_status body of None \<Rightarrow> FREE | Some st \<Rightarrow> st)
        (cb_license_plate body) (cb_brand body) (cb_color body) (cb_distance body) now s
      = (if cb_license_plate body \<in> c_license_plate ` set (cars s)
           then Inl UNIQUE_cars_license_plate
         else Inr (c_id ?row, s\<lparr>cars := cars s @ [?row], cars_seq := c_id ?row\<rparr>))"
    by (simp add: insert_car_def new_car_row_def Let_def)
  have out: "0 < cb_distance body \<Longrightarrow> CarOut ?row = Inr ?row"
    by (simp add: CarOut_def new_car_row_def)
  show ?thesis
    using sel out
    by (simp add: create_car_def validate_CarCreate_def raise_def get_db_def ins)
qed

lemma cars_ok_append:
  assumes ok: "cars_ok s" and fresh: "c_license_plate row \<notin> c_license_plate ` set (cars s)"
    and rid: "c_id row = next_rowid (cars_seq s) (map c_id (cars s))" and pos: "0 < c_distance row"
  shows "cars_ok (s\<lparr>cars := cars s @ [row], cars_seq := c_id row\<rparr>)"
proof (rule cars_ok_intro)
  let ?s' = "s\<lparr>cars := cars s @ [row], cars_seq := c_id row\<rparr>"
  have gt: "c_id c < c_id row" if "c \<in> set (cars s)" for c
    using next_rowid_gt_ids [of "c_id c" "map c_id (cars s)" "cars_seq s"] that rid by simp
  have seq: "cars_seq s < c_id row"
    using next_rowid_gt_seq [of "cars_seq s" "map c_id (cars s)"] rid by simp
  show "0 \<le> cars_seq ?s'" using seq cars_ok_seq [OF ok] by simp
  have "c_id row \<notin> c_id ` set (cars s)" using gt by fastforce
  then show "distinct (map c_id (cars ?s'))" using cars_ok_distinct [OF ok] by simp
  show "1 \<le> c_id c \<and> c_id c \<le> cars_seq ?s' \<and> 0 < c_distance c" if "c \<in> set (cars ?s')" for c
  proof (cases "c = row")
    case True
    then show ?thesis using seq cars_ok_seq [OF ok] pos by simp
  next
    case False
    then have "c \<in> set (cars s)" using that by simp
    then show ?thesis using cars_ok_row [OF ok, of c] seq by simp
  qed
  show "c_id c = c_id c'"
    if c: "c \<in> set (cars ?s')" and c': "c' \<in> set (cars ?s')"
      and eq: "c_license_plate c = c_license_plate c'" for c c'
  proof (cases "c = row")
    case True
    show ?thesis
    proof (cases "c' = row")
      case True
      with \<open>c = row\<close> show ?thesis by simp
    next
      case False
      then have "c' \<in> set (cars s)" using c' by simp
      then have "c_license_plate c' \<in> c_license_plate ` set (cars s)" by (rule imageI)
      then show ?thesis using fresh eq \<open>c = row\<close> by simp
    qed
  next
    case False
    then have in1: "c \<in> set (cars s)" using c by simp
    show ?thesis
    proof (cases "c' = row")
      case True
      have "c_license_plate c \<in> c_license_plate ` set (cars s)" using in1 by (rule imageI)
      then show ?thesis using fresh eq True by simp
    next
      case False
      then have "c' \<in> set (cars s)" using c' by simp
      then show ?thesis using cars_ok_plate [OF ok in1 _ eq] by simp
    qed
  qed
qed

lemma store_ok_create_car:
  assumes "store_ok s"
  shows "store_ok (snd (create_car body now s))"
proof -
  have cok: "cars_ok s" and dok: "drivers_ok s" using assms by (simp_all add: store_ok_def)
  let ?row = "new_car_row body now s"
  let ?s' = "s\<lparr>cars := cars s @ [?row], cars_seq := c_id ?row\<rparr>"
  have new: "store_ok ?s'"
    if "cb_license_plate body \<notin> c_license_plate ` set (cars s)" "0 < cb_distance body"
  proof -
    have "cars_ok ?s'"
      using cok that by (intro cars_ok_append) (simp_all add: new_car_row_def)
    moreover have "drivers_ok ?s'" using dok by (simp add: drivers_ok_cong [of ?s' s])
    ultimately show ?thesis by (simp add: store_ok_def)
  qed
  show ?thesis
    using assms new by (simp add: create_car_result)
qed

lemma fold_car_assign_keeps:
  "c_id (fold apply_car_assign flds c) = c_id c
 \<and> c_license_plate (fold apply_car_assign flds c) = c_license_plate c"
proof (induction flds arbitrary: c)
  case Nil
  show ?case by simp
next
  case (Cons a flds)
  show ?case using Cons.IH [of "apply_car_assign a c"] by (cases a) simp_all
qed

lemma fold_car_assign_distance:
  assumes "0 < c_distance c" and "\<And>v. Set_distance v \<in> set flds \<Longrightarrow> 0 < v"
  shows "0 < c_distance (fold apply_car_assign flds c)"
  using assms
proof (induction flds arbitrary: c)
  case Nil
  then show ?case by simp
next
  case (Cons a flds)
  have "0 < c_distance (apply_car_assign a c)"
    using Cons.prems by (cases a) simp_all
  then show ?case using Cons.IH [of "apply_car_assign a c"] Cons.prems(2) by simp
qed

lemma car_fields_distance:
  "validate_CarUpdate body = Inr u \<Longrightarrow> Set_distance v \<in> set (car_fields u) \<Longrightarrow> 0 < v"
  by (auto simp: validate_CarUpdate_def car_fields_def split: option.splits if_splits)

lemma cars_ok_update:
  assumes ok: "cars_ok s" and pos: "\<And>v. Set_distance v \<in> set flds \<Longrightarrow> 0 < v"
  shows "cars_ok (update_cars_where_id flds i s)"
proof (rule cars_ok_intro)
  let ?f = "\<lambda>c. if c_id c = i then fold apply_car_assign flds c else c"
  let ?s' = "update_cars_where_id flds i s"
  have cars': "cars ?s' = map ?f (cars s)" and seq': "cars_seq ?s' = cars_seq s"
    by (simp_all add: update_cars_where_id_def)
  have keep: "c_id (?f c) = c_id c \<and> c_license_plate (?f c) = c_license_plate c" for c
    using fold_car_assign_keeps [of flds c] by simp
  have ids: "map c_id (cars ?s') = map c_id (cars s)"
    unfolding cars' using keep by (induction "cars s") simp_all
  show "0 \<le> cars_seq ?s'" using cars_ok_seq [OF ok] seq' by simp
  show "distinct (map c_id (cars ?s'))" using cars_ok_distinct [OF ok] ids by simp
  have src: "\<exists>c0 \<in> set (cars s). c = ?f c0" if "c \<in> set (cars ?s')" for c
    using that unfolding cars' by auto
  show "1 \<le> c_id c \<and> c_id c \<le> cars_seq ?s' \<and> 0 < c_distance c" if c: "c \<in> set (cars ?s')" for c
  proof -
    obtain c0 where c0: "c0 \<in> set (cars s)" "c = ?f c0" using src [OF c] by blast
    have r: "1 \<le> c_id c0 \<and> c_id c0 \<le> cars_seq s \<and> 0 < c_distance c0"
      using cars_ok_row [OF ok c0(1)] .
    have "0 < c_distance (?f c0)"
      using fold_car_assign_distance [of c0 flds] r pos by simp
    then show ?thesis using r keep [of c0] c0(2) seq' by simp
  qed
  show "c_id c = c_id c'"
    if c: "c \<in> set (cars ?s')" and c': "c' \<in> set (cars ?s')"
      and eq: "c_license_plate c = c_license_plate c'" for c c'
  proof -
    obtain c0 where c0: "c0 \<in> set (cars s)" "c = ?f c0" using src [OF c] by blast
    obtain c1 where c1: "c1 \<in> set (cars s)" "c' = ?f c1" using src [OF c'] by blast
    have "c_license_plate c0 = c_license_plate c1"
      using eq keep [of c0] keep [of c1] c0(2) c1(2) by simp
    then have "c_id c0 = c_id c1" using cars_ok_plate [OF ok c0(1) c1(1)] by simp
    then show ?thesis using keep [of c0] keep [of c1] c0(2) c1(2) by simp
  qed
qed

lemma snd_get_db: "snd (get_db f s) = s \<or> snd (get_db f s) = snd (f s)"
  by (cases "f s") (auto simp: get_db_def split: sum.splits)

lemma snd_fetch_car_out: "snd (fetch_car_out i x) = x"
  by (simp add: fetch_car_out_def split: option.splits)

lemma update_car_state:
  "snd (update_car i body s) = s
 \<or> (\<exists>u. validate_CarUpdate body = Inr u
        \<and> snd (update_car i body s) = update_cars_where_id (car_fields u) i s)"
proof (cases "validate_CarUpdate body")
  case (Inl e)
  then show ?thesis by (simp add: update_car_def raise_def)
next
  case (Inr u)
  let ?F = "\<lambda>s. if select_car_by_id i s = None then (Inl (HTTPException 404 Car_not_found), s)
          else
            let flds = car_fields u
            in if flds = [] then fetch_car_out i s
               else fetch_car_out i (update_cars_where_id flds i s)"
  have eq: "update_car i body s = get_db ?F s" by (simp add: update_car_def Inr)
  have "snd (?F s) = s \<or> snd (?F s) = update_cars_where_id (car_fields u) i s"
    by (simp add: snd_fetch_car_out Let_def)
  then have "snd (get_db ?F s) = s \<or> snd (get_db ?F s) = update_cars_where_id (car_fields u) i s"
    using snd_get_db [of ?F s] by (elim disjE) simp_all
  then show ?thesis unfolding eq using Inr by (elim disjE) simp_all
qed

lemma drivers_ok_update_cars: "drivers_ok (update_cars_where_id flds i s) = drivers_ok s"
  by (rule drivers_ok_cong) (simp_all add: update_cars_where_id_def)

lemma store_ok_update_car:
  assumes "store_ok s"
  shows "store_ok (snd (update_car i body s))"
proof -
  have cok: "cars_ok s" and dok: "drivers_ok s" using assms by (simp_all add: store_ok_def)
  have new: "store_ok (update_cars_where_id (car_fields u) i s)"
    if u: "validate_CarUpdate body = Inr u" for u
  proof -
    have "cars_ok (update_cars_where_id (car_fields u) i s)"
      using cok car_fields_distance [OF u] by (rule cars_ok_update)
    then show ?thesis using dok by (simp add: store_ok_def drivers_ok_update_cars)
  qed
  from update_car_state [of i body s] show ?thesis
  proof (elim disjE exE conjE)
    assume "snd (update_car i body s) = s"
    then show ?thesis using assms by simp
  next
    fix u
    assume "validate_CarUpdate body = Inr u"
      and "snd (update_car i body s) = update_cars_where_id (car_fields u) i s"
    then show ?thesis using new by simp
  qed
qed

lemma drivers_ok_intro:
  "0 \<le> drivers_seq s \<Longrightarrow> distinct (map d_id (drivers s)) \<Longrightarrow>
   (\<And>d. d \<in> set (drivers s) \<Longrightarrow>
      1 \<le> d_id d \<and> d_id d \<le> drivers_seq s \<and> 0 \<le> d_rating d \<and> d_rating d \<le> 5) \<Longrightarrow>
   (\<And>d d'. d \<in> set (drivers s) \<Longrightarrow> d' \<in> set (drivers s) \<Longrightarrow>
      d_phone d = d_phone d' \<Longrightarrow> d_id d = d_id d') \<Longrightarrow>
   (\<And>d d'. d \<in> set (drivers s) \<Longrightarrow> d' \<in> set (drivers s) \<Longrightarrow>
      d_car_id d \<noteq> None \<Longrightarrow> d_car_id d = d_car_id d' \<Longrightarrow> d_id d = d_id d') \<Longrightarrow>
   drivers_ok s"
  unfolding drivers_ok_def by blast

lemma drivers_ok_seq: "drivers_ok s \<Longrightarrow> 0 \<le> drivers_seq s"
  unfolding drivers_ok_def by blast

lemma drivers_ok_phone:
  "drivers_ok s \<Longrightarrow> d \<in> set (drivers s) \<Longrightarrow> d' \<in> set (drivers s) \<Longrightarrow>
   d_phone d = d_phone d' \<Longrightarrow> d_id d = d_id d'"
  unfolding drivers_ok_def by blast

lemma drivers_ok_car_id':
  "drivers_ok s \<Longrightarrow> d \<in> set (drivers s) \<Longrightarrow> d' \<in> set (drivers s) \<Longrightarrow>
   d_car_id d \<noteq> None \<Longrightarrow> d_car_id d = d_car_id d' \<Longrightarrow> d_id d = d_id d'"
  unfolding drivers_ok_def by blast

lemma drivers_ok_append:
  assumes ok: "drivers_ok s"
    and phone: "d_phone row \<notin> d_phone ` set (drivers s)"
    and car: "d_car_id row = None \<or> d_car_id row \<notin> d_car_id ` set (drivers s)"
    and rid: "d_id row = next_rowid (drivers_seq s) (map d_id (drivers s))"
    and rt: "0 \<le> d_rating row" "d_rating row \<le> 5"
  shows "drivers_ok (s\<lparr>drivers := drivers s @ [row], drivers_seq := d_id row\<rparr>)"
proof (rule drivers_ok_intro)
  let ?s' = "s\<lparr>drivers := drivers s @ [row], drivers_seq := d_id row\<rparr>"
  have gt: "d_id d < d_id row" if "d \<in> set (drivers s)" for d
    using next_rowid_gt_ids [of "d_id d" "map d_id (drivers s)" "drivers_seq s"] that rid by simp
  have seq: "drivers_seq s < d_id row"
    using next_rowid_gt_seq [of "drivers_seq s" "map d_id (drivers s)"] rid by simp
  have mem: "d = row \<or> d \<in> set (drivers s)" if "d \<in> set (drivers ?s')" for d
    using that by auto
  show "0 \<le> drivers_seq ?s'" using seq drivers_ok_seq [OF ok] by simp
  have "d_id row \<notin> d_id ` set (drivers s)" using gt by fastforce
  then show "distinct (map d_id (drivers ?s'))" using drivers_ok_distinct [OF ok] by simp
  show "1 \<le> d_id d \<and> d_id d \<le> drivers_seq ?s' \<and> 0 \<le> d_rating d \<and> d_rating d \<le> 5"
    if d: "d \<in> set (drivers ?s')" for d
    using mem [OF d]
  proof
    assume "d = row"
    then show ?thesis using seq drivers_ok_seq [OF ok] rt by simp
  next
    assume "d \<in> set (drivers s)"
    then show ?thesis using drivers_ok_row [OF ok, of d] seq by simp
  qed
  show "d_id d = d_id d'"
    if d: "d \<in> set (drivers ?s')" and d': "d' \<in> set (drivers ?s')"
      and eq: "d_phone d = d_phone d'" for d d'
  proof -
    have no: "x \<in> set (drivers s) \<Longrightarrow> d_phone x \<noteq> d_phone row" for x
      using phone by (metis imageI)
    from mem [OF d] mem [OF d'] show ?thesis
    proof (elim disjE)
      assume "d = row" "d' = row" then show ?thesis by simp
    next
      assume "d = row" "d' \<in> set (drivers s)" then show ?thesis using no [of d'] eq by simp
    next
      assume "d \<in> set (drivers s)" "d' = row" then show ?thesis using no [of d] eq by simp
    next
      assume "d \<in> set (drivers s)" "d' \<in> set (drivers s)"
      then show ?thesis using drivers_ok_phone [OF ok _ _ eq] by simp
    qed
  qed
  show "d_id d = d_id d'"
    if d: "d \<in> set (drivers ?s')" and d': "d' \<in> set (drivers ?s')"
      and some: "d_car_id d \<noteq> None" and eq: "d_car_id d = d_car_id d'" for d d'
  proof -
    have no: "x \<in> set (drivers s) \<Longrightarrow> d_car_id row \<noteq> None \<Longrightarrow> d_car_id x \<noteq> d_car_id row" for x
      using car by (metis imageI)
    from mem [OF d] mem [OF d'] show ?thesis
    proof (elim disjE)
      assume "d = row" "d' = row" then show ?thesis by simp
    next
      assume "d = row" "d' \<in> set (drivers s)"
      then show ?thesis using no [of d'] eq some by simp
    next
      assume "d \<in> set (drivers s)" "d' = row"
      then show ?thesis using no [of d] eq some by simp
    next
      assume "d \<in> set (drivers s)" "d' \<in> set (drivers s)"
      then show ?thesis using drivers_ok_car_id' [OF ok _ _ some eq] by simp
    qed
  qed
qed

lemma cars_ok_append_driver:
  "cars_ok (s\<lparr>drivers := x, drivers_seq := y\<rparr>) = cars_ok s"
  by (rule cars_ok_cong) simp_all

lemma create_driver_state:
  "snd (create_driver body now s) = s
 \<or> (rating_in_range (db_rating body)
    \<and> \<not> (db_car_id body \<noteq> None \<and> db_car_id body \<in> d_car_id ` set (drivers s))
    \<and> db_phone body \<notin> d_phone ` set (drivers s)
    \<and> snd (create_driver body now s)
        = s\<lparr>drivers := drivers s @ [new_driver_row body now s],
            drivers_seq := d_id (new_driver_row body now s)\<rparr>)"
proof (cases "rating_in_range (db_rating body)")
  case False
  then show ?thesis by (simp add: create_driver_invalid)
next
  case True
  show ?thesis
  proof (cases "car_id_precheck (db_car_id body) s")
    case None
    show ?thesis by (simp add: create_driver_unchecked [OF True None] True)
  next
    case (Some e)
    obtain d where d: "validate_DriverCreate body = Inr d" "dc_car_id d = db_car_id body"
      using validate_DriverCreate_ok [OF True] by blast
    have "create_driver body now s = (Inl e, s)"
      using Some by (simp add: create_driver_def d get_db_def)
    then show ?thesis by simp
  qed
qed

lemma store_ok_create_driver:
  assumes "store_ok s"
  shows "store_ok (snd (create_driver body now s))"
proof -
  have cok: "cars_ok s" and dok: "drivers_ok s" using assms by (simp_all add: store_ok_def)
  let ?row = "new_driver_row body now s"
  let ?s' = "s\<lparr>drivers := drivers s @ [?row], drivers_seq := d_id ?row\<rparr>"
  from create_driver_state [of body now s] show ?thesis
  proof (elim disjE conjE)
    assume "snd (create_driver body now s) = s"
    then show ?thesis using assms by simp
  next
    assume valid: "rating_in_range (db_rating body)"
      and car: "\<not> (db_car_id body \<noteq> None \<and> db_car_id body \<in> d_car_id ` set (drivers s))"
      and phone: "db_phone body \<notin> d_phone ` set (drivers s)"
      and st: "snd (create_driver body now s) = ?s'"
    have rt: "0 \<le> d_rating ?row \<and> d_rating ?row \<le> 5"
      using valid by (simp add: new_driver_row_def rating_in_range_def split: option.splits)
    have "drivers_ok ?s'"
    proof (rule drivers_ok_append [OF dok])
      show "d_phone ?row \<notin> d_phone ` set (drivers s)" using phone by (simp add: new_driver_row_def)
      show "d_car_id ?row = None \<or> d_car_id ?row \<notin> d_car_id ` set (drivers s)"
        using car by (simp add: new_driver_row_def)
      show "d_id ?row = next_rowid (drivers_seq s) (map d_id (drivers s))"
        by (simp add: new_driver_row_def)
      show "0 \<le> d_rating ?row" "d_rating ?row \<le> 5" using rt by simp_all
    qed
    then show ?thesis using cok unfolding st by (simp add: store_ok_def cars_ok_append_driver)
  qed
qed

lemma fold_driver_assign_id: "d_id (fold apply_driver_assign flds d) = d_id d"
proof (induction flds arbitrary: d)
  case Nil
  show ?case by simp
next
  case (Cons a flds)
  show ?case using Cons.IH [of "apply_driver_assign a d"] by (cases a) simp_all
qed

lemma fold_driver_assign_phone:
  "\<not> list_ex is_Set_phone flds \<Longrightarrow> d_phone (fold apply_driver_assign flds d) = d_phone d"
proof (induction flds arbitrary: d)
  case Nil
  show ?case by simp
next
  case (Cons a flds)
  then show ?case using Cons.IH [of "apply_driver_assign a d"] by (cases a) simp_all
qed

lemma fold_driver_assign_rating:
  "\<not> list_ex is_Set_rating flds \<Longrightarrow> d_rating (fold apply_driver_assign flds d) = d_rating d"
proof (induction flds arbitrary: d)
  case Nil
  show ?case by simp
next
  case (Cons a flds)
  then show ?case using Cons.IH [of "apply_driver_assign a d"] by (cases a) simp_all
qed

lemma fold_driver_assign_car_id:
  "\<not> list_ex is_Set_car_id flds \<Longrightarrow> d_car_id (fold apply_driver_assign flds d) = d_car_id d"
proof (induction flds arbitrary: d)
  case Nil
  show ?case by simp
next
  case (Cons a flds)
  then show ?case using Cons.IH [of "apply_driver_assign a d"] by (cases a) simp_all
qed

lemma map_filter_Nil_iff: "List.map_filter f xs = [] \<longleftrightarrow> (\<forall>x \<in> set xs. f x = None)"
  by (induction xs) (auto simp: List.map_filter_simps split: option.splits)

lemma update_drivers_where_id_Inr:
  assumes "update_drivers_where_id flds i s = Inr s'"
  shows "s' = s\<lparr>drivers := map (\<lambda>d. if d_id d = i then fold apply_driver_assign flds d else d)
                              (drivers s)\<rparr>"
    and "\<And>d. d \<in> set (drivers s) \<Longrightarrow> d_id d = i \<Longrightarrow>
           driver_row_violation flds (filter (\<lambda>d. d_id d \<noteq> i) (drivers s))
             (fold apply_driver_assign flds d) = None"
proof -
  let ?others = "filter (\<lambda>d. d_id d \<noteq> i) (drivers s)"
  let ?news = "map (fold apply_driver_assign flds) (filter (\<lambda>d. d_id d = i) (drivers s))"
  have nil: "List.map_filter (driver_row_violation flds ?others) ?news = []"
    using assms by (simp add: update_drivers_where_id_def Let_def split: list.splits)
  show "s' = s\<lparr>drivers := map (\<lambda>d. if d_id d = i then fold apply_driver_assign flds d else d)
                              (drivers s)\<rparr>"
    using assms nil by (simp add: update_drivers_where_id_def Let_def)
  show "driver_row_violation flds ?others (fold apply_driver_assign flds d) = None"
    if "d \<in> set (drivers s)" "d_id d = i" for d
  proof -
    have "fold apply_driver_assign flds d \<in> set ?news" using that by simp
    then show ?thesis using nil unfolding map_filter_Nil_iff by blast
  qed
qed

lemma unique_key_update:
  fixes key :: "driver_row \<Rightarrow> 'k"
  assumes old: "\<And>d d'. d \<in> set ds \<Longrightarrow> d' \<in> set ds \<Longrightarrow> valid (key d) \<Longrightarrow> key d = key d' \<Longrightarrow>
                  d_id d = d_id d'"
    and upd_id: "\<And>d. d_id (u d) = d_id d"
    and chk: "\<And>d d'. d \<in> set ds \<Longrightarrow> d_id d = i \<Longrightarrow> d' \<in> set ds \<Longrightarrow> d_id d' \<noteq> i \<Longrightarrow>
                  valid (key (u d)) \<Longrightarrow> key (u d) = key d' \<Longrightarrow> False"
    and a: "a \<in> set (map (\<lambda>d. if d_id d = i then u d else d) ds)"
    and b: "b \<in> set (map (\<lambda>d. if d_id d = i then u d else d) ds)"
    and va: "valid (key a)" and eq: "key a = key b"
  shows "d_id a = d_id b"
proof -
  have "\<exists>a0 \<in> set ds. a = (if d_id a0 = i then u a0 else a0)"
    using a by (simp only: set_map image_iff)
  then obtain a0 where a0: "a0 \<in> set ds" and a_def: "a = (if d_id a0 = i then u a0 else a0)"
    by (elim bexE)
  have "\<exists>b0 \<in> set ds. b = (if d_id b0 = i then u b0 else b0)"
    using b by (simp only: set_map image_iff)
  then obtain b0 where b0: "b0 \<in> set ds" and b_def: "b = (if d_id b0 = i then u b0 else b0)"
    by (elim bexE)
  show ?thesis
  proof (cases "d_id a0 = i")
    case True
    then have au: "a = u a0" using a_def by simp
    have ida: "d_id a = i" unfolding au upd_id by (rule True)
    show ?thesis
    proof (cases "d_id b0 = i")
      case True
      then have "b = u b0" using b_def by simp
      then have "d_id b = i" using True upd_id [of b0] by simp
      then show ?thesis using ida by simp
    next
      case False
      then have bb: "b = b0" using b_def by simp
      have v: "valid (key (u a0))" using va unfolding au .
      have e: "key (u a0) = key b0" using eq unfolding au bb .
      have False using a0 True b0 False v e by (rule chk)
      then show ?thesis ..
    qed
  next
    case False
    then have aa: "a = a0" using a_def by simp
    note ai = False
    show ?thesis
    proof (cases "d_id b0 = i")
      case True
      then have bu: "b = u b0" using b_def by simp
      have e: "key (u b0) = key a0" using eq [symmetric] unfolding aa bu .
      have v: "valid (key (u b0))" using va unfolding aa e .
      have False using b0 True a0 ai v e by (rule chk)
      then show ?thesis ..
    next
      case False
      then have bb: "b = b0" using b_def by simp
      have v: "valid (key a0)" using va unfolding aa .
      have e: "key a0 = key b0" using eq unfolding aa bb .
      show ?thesis unfolding aa bb using a0 b0 v e by (rule old)
    qed
  qed
qed

lemma violation_None:
  "driver_row_violation flds others new = None \<Longrightarrow>
     (list_ex is_Set_rating flds \<longrightarrow> 0 \<le> d_rating new \<and> d_rating new \<le> 5)
   \<and> (list_ex is_Set_car_id flds \<longrightarrow> d_car_id new \<noteq> None \<longrightarrow>
         d_car_id new \<notin> d_car_id ` set others)
   \<and> (list_ex is_Set_phone flds \<longrightarrow> d_phone new \<notin> d_phone ` set others)"
  by (auto simp: driver_row_violation_def split: if_splits)

lemma drivers_ok_update:
  assumes ok: "drivers_ok s" and upd: "update_drivers_where_id flds i s = Inr s'"
  shows "drivers_ok s'"
proof -
  let ?u = "fold apply_driver_assign flds"
  let ?f = "\<lambda>d. if d_id d = i then ?u d else d"
  let ?others = "filter (\<lambda>d. d_id d \<noteq> i) (drivers s)"
  have s': "s' = s\<lparr>drivers := map ?f (drivers s)\<rparr>"
    using upd by (rule update_drivers_where_id_Inr(1))
  have nv: "driver_row_violation flds ?others (?u d) = None"
    if "d \<in> set (drivers s)" "d_id d = i" for d
    using upd that by (rule update_drivers_where_id_Inr(2))
  have other: "d' \<in> set ?others" if "d' \<in> set (drivers s)" "d_id d' \<noteq> i" for d'
    using that by simp
  have keep: "d_id (?f d) = d_id d" for d by (simp add: fold_driver_assign_id)
  have ids: "map d_id (map ?f (drivers s)) = map d_id (drivers s)"
    using keep by (induction "drivers s") simp_all
  have phone_chk: False
    if d: "d \<in> set (drivers s)" and di: "d_id d = i"
      and d': "d' \<in> set (drivers s)" and d'i: "d_id d' \<noteq> i"
      and e: "d_phone (?u d) = d_phone d'" for d d'
  proof (cases "list_ex is_Set_phone flds")
    case True
    then have "d_phone (?u d) \<notin> d_phone ` set ?others"
      using violation_None [OF nv [OF d di]] by blast
    moreover have "d_phone d' \<in> d_phone ` set ?others" using other [OF d' d'i] by (rule imageI)
    ultimately show False using e by simp
  next
    case False
    then have "d_phone (?u d) = d_phone d" by (rule fold_driver_assign_phone)
    then have "d_phone d = d_phone d'" using e by simp
    then have "d_id d = d_id d'" using drivers_ok_phone [OF ok d d'] by simp
    then show False using di d'i by simp
  qed
  have car_chk: False
    if d: "d \<in> set (drivers s)" and di: "d_id d = i"
      and d': "d' \<in> set (drivers s)" and d'i: "d_id d' \<noteq> i"
      and v: "d_car_id (?u d) \<noteq> None" and e: "d_car_id (?u d) = d_car_id d'" for d d'
  proof (cases "list_ex is_Set_car_id flds")
    case True
    then have "d_car_id (?u d) \<notin> d_car_id ` set ?others"
      using violation_None [OF nv [OF d di]] v by blast
    moreover have "d_car_id d' \<in> d_car_id ` set ?others" using other [OF d' d'i] by (rule imageI)
    ultimately show False using e by simp
  next
    case False
    then have same: "d_car_id (?u d) = d_car_id d" by (rule fold_driver_assign_car_id)
    have "d_car_id d \<noteq> None" using v unfolding same .
    moreover have "d_car_id d = d_car_id d'" using e unfolding same .
    ultimately have "d_id d = d_id d'" using drivers_ok_car_id' [OF ok d d'] by simp
    then show False using di d'i by simp
  qed
  have "drivers_ok (s\<lparr>drivers := map ?f (drivers s)\<rparr>)"
  proof (rule drivers_ok_intro)
    let ?s' = "s\<lparr>drivers := map ?f (drivers s)\<rparr>"
    have dr: "drivers ?s' = map ?f (drivers s)" and sq: "drivers_seq ?s' = drivers_seq s"
      by simp_all
    show "0 \<le> drivers_seq ?s'" unfolding sq using ok by (rule drivers_ok_seq)
    show "distinct (map d_id (drivers ?s'))"
      unfolding dr ids using ok by (rule drivers_ok_distinct)
    show "1 \<le> d_id d \<and> d_id d \<le> drivers_seq ?s' \<and> 0 \<le> d_rating d \<and> d_rating d \<le> 5"
      if d: "d \<in> set (drivers ?s')" for d
    proof -
      have "\<exists>d0 \<in> set (drivers s). d = ?f d0" using d by (simp only: dr set_map image_iff)
      then obtain d0 where d0: "d0 \<in> set (drivers s)" and dd: "d = ?f d0" by (elim bexE)
      have r0: "1 \<le> d_id d0 \<and> d_id d0 \<le> drivers_seq s \<and> 0 \<le> d_rating d0 \<and> d_rating d0 \<le> 5"
        using ok d0 by (rule drivers_ok_row)
      have rt: "0 \<le> d_rating d \<and> d_rating d \<le> 5"
      proof (cases "d_id d0 = i")
        case False
        then show ?thesis using dd r0 by simp
      next
        case True
        then have du: "d = ?u d0" using dd by simp
        show ?thesis
        proof (cases "list_ex is_Set_rating flds")
          case True
          then show ?thesis using violation_None [OF nv [OF d0 \<open>d_id d0 = i\<close>]] du by blast
        next
          case False
          then have "d_rating (?u d0) = d_rating d0" by (rule fold_driver_assign_rating)
          then show ?thesis using du r0 by simp
        qed
      qed
      have "d_id d = d_id d0" unfolding dd by (rule keep)
      then show ?thesis using r0 rt sq by simp
    qed
    show "d_id a = d_id b"
      if "a \<in> set (drivers ?s')" "b \<in> set (drivers ?s')" "d_phone a = d_phone b" for a b
    proof (rule unique_key_update [where key = d_phone and valid = "\<lambda>_. True" and u = ?u
          and ds = "drivers s" and i = i])
      show "\<And>d d'. d \<in> set (drivers s) \<Longrightarrow> d' \<in> set (drivers s) \<Longrightarrow> True \<Longrightarrow>
              d_phone d = d_phone d' \<Longrightarrow> d_id d = d_id d'"
        using drivers_ok_phone [OF ok] by blast
      show "\<And>d. d_id (?u d) = d_id d" by (rule fold_driver_assign_id)
      show "\<And>d d'. d \<in> set (drivers s) \<Longrightarrow> d_id d = i \<Longrightarrow> d' \<in> set (drivers s) \<Longrightarrow>
              d_id d' \<noteq> i \<Longrightarrow> True \<Longrightarrow> d_phone (?u d) = d_phone d' \<Longrightarrow> False"
        using phone_chk by blast
      show "a \<in> set (map ?f (drivers s))" using that(1) unfolding dr .
      show "b \<in> set (map ?f (drivers s))" using that(2) unfolding dr .
      show True ..
      show "d_phone a = d_phone b" by (rule that(3))
    qed
    show "d_id a = d_id b"
      if "a \<in> set (drivers ?s')" "b \<in> set (drivers ?s')"
        "d_car_id a \<noteq> None" "d_car_id a = d_car_id b" for a b
    proof (rule unique_key_update [where key = d_car_id and valid = "\<lambda>k. k \<noteq> None" and u = ?u
          and ds = "drivers s" and i = i])
      show "\<And>d d'. d \<in> set (drivers s) \<Longrightarrow> d' \<in> set (drivers s) \<Longrightarrow> d_car_id d \<noteq> None \<Longrightarrow>
              d_car_id d = d_car_id d' \<Longrightarrow> d_id d = d_id d'"
        using drivers_ok_car_id' [OF ok] by blast
      show "\<And>d. d_id (?u d) = d_id d" by (rule fold_driver_assign_id)
      show "\<And>d d'. d \<in> set (drivers s) \<Longrightarrow> d_id d = i \<Longrightarrow> d' \<in> set (drivers s) \<Longrightarrow>
              d_id d' \<noteq> i \<Longrightarrow> d_car_id (?u d) \<noteq> None \<Longrightarrow> d_car_id (?u d) = d_car_id d' \<Longrightarrow> False"
        using car_chk by blast
      show "a \<in> set (map ?f (drivers s))" using that(1) unfolding dr .
      show "b \<in> set (map ?f (drivers s))" using that(2) unfolding dr .
      show "d_car_id a \<noteq> None" by (rule that(3))
      show "d_car_id a = d_car_id b" by (rule that(4))
    qed
  qed
  then show ?thesis unfolding s' .
qed

lemma snd_fetch_driver_out: "snd (fetch_driver_out i x) = x"
  by (simp add: fetch_driver_out_def split: option.splits)

lemma apply_update_state:
  "snd (if flds = [] then fetch_driver_out i s
        else (case update_drivers_where_id flds i s of
                Inl _ \<Rightarrow> (Inl (HTTPException 400 Uniqueness_violation), s)
              | Inr s' \<Rightarrow> fetch_driver_out i s')) = s
 \<or> update_drivers_where_id flds i s
      = Inr (snd (if flds = [] then fetch_driver_out i s
        else (case update_drivers_where_id flds i s of
                Inl _ \<Rightarrow> (Inl (HTTPException 400 Uniqueness_violation), s)
              | Inr s' \<Rightarrow> fetch_driver_out i s')))"
proof (cases "flds = []")
  case True
  then show ?thesis by (simp add: snd_fetch_driver_out)
next
  case False
  show ?thesis
  proof (cases "update_drivers_where_id flds i s")
    case (Inl e)
    then show ?thesis using False by simp
  next
    case (Inr s')
    then show ?thesis using False by (simp add: snd_fetch_driver_out)
  qed
qed

lemma update_driver_body_state:
  "snd (if select_driver_by_id i s = None
          then (Inl (HTTPException 404 Driver_not_found), s)
        else
          (case resolve_car_id i u s of
             Inl e \<Rightarrow> (Inl e, s)
           | Inr u' \<Rightarrow>
               let flds = driver_fields u'
               in if flds = [] then fetch_driver_out i s
                  else (case update_drivers_where_id flds i s of
                          Inl _ \<Rightarrow> (Inl (HTTPException 400 Uniqueness_violation), s)
                        | Inr s' \<Rightarrow> fetch_driver_out i s'))) = s
 \<or> (\<exists>flds. update_drivers_where_id flds i s
        = Inr (snd (if select_driver_by_id i s = None
          then (Inl (HTTPException 404 Driver_not_found), s)
        else
          (case resolve_car_id i u s of
             Inl e \<Rightarrow> (Inl e, s)
           | Inr u' \<Rightarrow>
               let flds = driver_fields u'
               in if flds = [] then fetch_driver_out i s
                  else (case update_drivers_where_id flds i s of
                          Inl _ \<Rightarrow> (Inl (HTTPException 400 Uniqueness_violation), s)
                        | Inr s' \<Rightarrow> fetch_driver_out i s')))))"
proof (cases "select_driver_by_id i s = None")
  case True
  then show ?thesis by simp
next
  case False
  show ?thesis
  proof (cases "resolve_car_id i u s")
    case (Inl e)
    then show ?thesis using False by simp
  next
    case (Inr u')
    have "snd (if driver_fields u' = [] then fetch_driver_out i s
        else (case update_drivers_where_id (driver_fields u') i s of
                Inl _ \<Rightarrow> (Inl (HTTPException 400 Uniqueness_violation), s)
              | Inr s' \<Rightarrow> fetch_driver_out i s')) = s
      \<or> (\<exists>flds. update_drivers_where_id flds i s
        = Inr (snd (if driver_fields u' = [] then fetch_driver_out i s
        else (case update_drivers_where_id (driver_fields u') i s of
                Inl _ \<Rightarrow> (Inl (HTTPException 400 Uniqueness_violation), s)
              | Inr s' \<Rightarrow> fetch_driver_out i s'))))"
      using apply_update_state [of "driver_fields u'" i s] by blast
    then show ?thesis by (simp only: if_not_P [OF False] Inr sum.case Let_def)
  qed
qed

lemma update_driver_state:
  "snd (update_driver i body s) = s
 \<or> (\<exists>flds. update_drivers_where_id flds i s = Inr (snd (update_driver i body s)))"
proof (cases "validate_DriverUpdate body")
  case (Inl e)
  then show ?thesis by (simp add: update_driver_def raise_def)
next
  case (Inr u)
  let ?F = "\<lambda>s. if select_driver_by_id i s = None
            then (Inl (HTTPException 404 Driver_not_found), s)
          else
            (case resolve_car_id i u s of
               Inl e \<Rightarrow> (Inl e, s)
             | Inr u' \<Rightarrow>
                 let flds = driver_fields u'
                 in if flds = [] then fetch_driver_out i s
                    else (case update_drivers_where_id flds i s of
                            Inl _ \<Rightarrow> (Inl (HTTPException 400 Uniqueness_violation), s)
                          | Inr s' \<Rightarrow> fetch_driver_out i s'))"
  have eq: "update_driver i body s = get_db ?F s" by (simp add: update_driver_def Inr)
  have F: "snd (?F s) = s \<or> (\<exists>flds. update_drivers_where_id flds i s = Inr (snd (?F s)))"
    by (rule update_driver_body_state)
  from snd_get_db [of ?F s] show ?thesis
  proof
    assume "snd (get_db ?F s) = s"
    then show ?thesis unfolding eq by (rule disjI1)
  next
    assume g: "snd (get_db ?F s) = snd (?F s)"
    show ?thesis unfolding eq g by (rule F)
  qed
qed

lemma store_ok_update_driver:
  assumes "store_ok s"
  shows "store_ok (snd (update_driver i body s))"
proof -
  have cok: "cars_ok s" and dok: "drivers_ok s" using assms by (simp_all add: store_ok_def)
  from update_driver_state [of i body s] show ?thesis
  proof (elim disjE exE)
    assume "snd (update_driver i body s) = s"
    then show ?thesis using assms by simp
  next
    fix flds
    let ?s' = "snd (update_driver i body s)"
    assume upd: "update_drivers_where_id flds i s = Inr ?s'"
    have d: "drivers_ok ?s'" using dok upd by (rule drivers_ok_update)
    have e: "?s' = s\<lparr>drivers := map (\<lambda>d. if d_id d = i then fold apply_driver_assign flds d else d)
                              (drivers s)\<rparr>"
      using upd by (rule update_drivers_where_id_Inr(1))
    have "cars ?s' = cars s" by (subst e) simp
    moreover have "cars_seq ?s' = cars_seq s" by (subst e) simp
    ultimately have "cars_ok ?s' = cars_ok s" by (rule cars_ok_cong)
    then show ?thesis using cok d by (simp add: store_ok_def)
  qed
qed

section \<open>One driver per vehicle, at any time\<close>

text \<open>The stores the program starts from are well-formed, every writing request leaves a
  well-formed store well-formed, and the reading operations return the store they were
  given.\<close>

lemma store_ok_empty_db: "store_ok empty_db"
  by (simp add: store_ok_def cars_ok_def drivers_ok_def empty_db_def)

lemma store_ok_serve: "store_ok s \<Longrightarrow> store_ok (serve req s)"
  by (cases req)
    (simp_all add: store_ok_create_car store_ok_update_car store_ok_create_driver
      store_ok_update_driver)

lemma store_ok_serve_all: "store_ok s \<Longrightarrow> store_ok (fold serve reqs s)"
  by (induction reqs arbitrary: s) (simp_all add: store_ok_serve)

lemma reads_keep_store:
  "snd (get_car i s) = s" "snd (get_cars st mn mx limit offset s) = s"
  "snd (get_cars_in_repair s) = s" "snd (get_driver i s) = s"
  "snd (get_drivers r a limit offset s) = s" "snd (get_drivers_low_rating t s) = s"
proof -
  have g: "snd (get_db f s) = s" if "snd (f s) = s" for f :: "db \<Rightarrow> (http_error + 'b) \<times> db"
    using snd_get_db [of f s] that by auto
  show "snd (get_car i s) = s"
    by (cases "1 \<le> i") (auto simp: get_car_def raise_def intro!: g split: list.splits)
  show "snd (get_cars st mn mx limit offset s) = s"
    by (auto simp: get_cars_def raise_def Let_def intro!: g)
  show "snd (get_cars_in_repair s) = s"
    by (auto simp: get_cars_in_repair_def intro!: g)
  show "snd (get_driver i s) = s"
    by (cases "1 \<le> i") (auto simp: get_driver_def raise_def intro!: g split: list.splits)
  show "snd (get_drivers r a limit offset s) = s"
    by (auto simp: get_drivers_def raise_def Let_def intro!: g)
  show "snd (get_drivers_low_rating t s) = s"
    by (auto simp: get_drivers_low_rating_def raise_def intro!: g)
qed

lemma moved_db_eq:
  "moved_db =
     seed_db\<lparr>drivers :=
        [\<lparr>d_id = 1, d_full_name = ''Ivanov Ivan Ivanovich'', d_phone = ''+79001234567'',
          d_rating = 4.9, d_car_id = Some 1, d_is_active = True, d_created_at = 0\<rparr>,
         \<lparr>d_id = 2, d_full_name = ''Petrov Petr Petrovich'', d_phone = ''+79007654321'',
          d_rating = 4.7, d_car_id = Some 3, d_is_active = True, d_created_at = 0\<rparr>,
         \<lparr>d_id = 3, d_full_name = ''Sidorov Sidor Sidorovich'', d_phone = ''+79005554433'',
          d_rating = 5, d_car_id = Some 4, d_is_active = True, d_created_at = 0\<rparr>,
         \<lparr>d_id = 4, d_full_name = ''Smirnov Aleksei Vladimirovich'', d_phone = ''+79004443322'',
          d_rating = 4.5, d_car_id = Some 5, d_is_active = True, d_created_at = 0\<rparr>,
         \<lparr>d_id = 5, d_full_name = ''Kozlov Dmitrii Nikolaevich'', d_phone = ''+79003332211'',
          d_rating = 4.8, d_car_id = Some 7, d_is_active = True, d_created_at = 0\<rparr>]\<rparr>"
  by (simp add: moved_db_def update_driver_def validate_DriverUpdate_def no_driver_update_def
      get_db_def select_driver_by_id_def select_car_by_id_def resolve_car_id_def
      driver_fields_def update_drivers_where_id_def driver_row_violation_def
      List.map_filter_def fetch_driver_out_def DriverOut_def Let_def seed_db_eq)

text \<open>
  Claim C2. Let \<open>s\<close> be the store reached from a well-formed store by any sequence of create
  and partial-update requests, and let driver \<open>A\<close> reference the vehicle \<open>V\<close> in \<open>s\<close>. Then
  \<open>A\<close> is the only driver referencing \<open>V\<close>; a valid request to create a driver referencing
  \<open>V\<close> fails with the 400 "already assigned" conflict; a valid partial update of any other
  driver \<open>B\<close> to reference \<open>V\<close> fails with the same conflict; and in both cases the store,
  hence the reference of \<open>A\<close>, is unchanged.
\<close>

theorem one_driver_per_vehicle:
  assumes "store_ok s0" and "s = fold serve reqs s0"
    and "A \<in> set (drivers s)" and "d_car_id A = Some V" and "V \<in> c_id ` set (cars s)"
  shows "(\<forall>A' \<in> set (drivers s). d_car_id A' = Some V \<longrightarrow> A' = A)
       \<and> (db_car_id body = Some V \<and> rating_in_range (db_rating body) \<longrightarrow>
            create_driver body now s = (Inl (HTTPException 400 Car_already_assigned), s))
       \<and> (B \<in> set (drivers s) \<and> B \<noteq> A \<and> du_car_id u = Some V \<and> rating_in_range (du_rating u) \<longrightarrow>
            update_driver (d_id B) u s = (Inl (HTTPException 400 Car_already_assigned), s))"
proof (intro conjI ballI impI)
  have ok: "store_ok s" unfolding assms(2) using assms(1) by (rule store_ok_serve_all)
  have cok: "cars_ok s" and dok: "drivers_ok s" using ok by (simp_all add: store_ok_def)
  obtain c where c: "c \<in> set (cars s)" "c_id c = V" using assms(5) by auto
  have V: "V \<noteq> 0" using cars_ok_row [OF cok c(1)] c(2) by simp
  {
    fix A' assume "A' \<in> set (drivers s)" "d_car_id A' = Some V"
    then have "d_id A' = d_id A"
      using drivers_ok_car_id [OF dok _ assms(3) _ assms(4)] by blast
    then show "A' = A"
      using distinct_key_eq [OF drivers_ok_distinct [OF dok] \<open>A' \<in> set (drivers s)\<close> assms(3)]
      by simp
  }
  {
    assume "db_car_id body = Some V \<and> rating_in_range (db_rating body)"
    then show "create_driver body now s = (Inl (HTTPException 400 Car_already_assigned), s)"
      using create_driver_taken [OF V assms(5,3,4)] by blast
  }
  {
    assume h: "B \<in> set (drivers s) \<and> B \<noteq> A \<and> du_car_id u = Some V \<and> rating_in_range (du_rating u)"
    then have "d_id A \<noteq> d_id B"
      using distinct_key_eq [OF drivers_ok_distinct [OF dok] assms(3), of B] by blast
    then show "update_driver (d_id B) u s = (Inl (HTTPException 400 Car_already_assigned), s)"
      using update_driver_taken [OF V assms(5,3,4)] h by blast
  }
qed

theorem one_driver_per_vehicle_witness:
  "store_ok seed_db
 \<and> create_driver \<lparr>db_full_name = ''Nina'', db_phone = ''+70000000002'', db_rating = None,
                  db_car_id = Some 3\<rparr> 5 moved_db
     = (Inl (HTTPException 400 Car_already_assigned), moved_db)
 \<and> update_driver 1 (no_driver_update\<lparr>du_car_id := Some 3\<rparr>) moved_db
     = (Inl (HTTPException 400 Car_already_assigned), moved_db)"
  using store_ok_seed_db
    one_driver_per_vehicle [OF store_ok_seed_db moved_db_def,
      of "\<lparr>d_id = 2, d_full_name = ''Petrov Petr Petrovich'', d_phone = ''+79007654321'',
           d_rating = 4.7, d_car_id = Some 3, d_is_active = True, d_created_at = 0\<rparr>" 3
         "\<lparr>db_full_name = ''Nina'', db_phone = ''+70000000002'', db_rating = None,
           db_car_id = Some 3\<rparr>" 5
         "\<lparr>d_id = 1, d_full_name = ''Ivanov Ivan Ivanovich'', d_phone = ''+79001234567'',
           d_rating = 4.9, d_car_id = Some 1, d_is_active = True, d_created_at = 0\<rparr>"
         "no_driver_update\<lparr>du_car_id := Some 3\<rparr>"]
  by (simp add: moved_db_eq seed_db_eq rating_in_range_def no_driver_update_def)

end
